theory Spec2Isabelle
  imports Main "HOL-Library.Word" "HOL-Library.AList"
begin

unbundle bit_operations_syntax

section \<open>The memory sub-allocator of pkg/vk/memory.go\<close>

text \<open>
  The development embeds the pool-based sub-allocator of \<^verbatim>\<open>pkg/vk/memory.go\<close>.
  \<^verbatim>\<open>vulkan.DeviceSize\<close> is \<^verbatim>\<open>C.VkDeviceSize\<close>, an unsigned 64-bit integer, so it
  is a \<^typ>\<open>64 word\<close>: \<open>+\<close> and \<open>-\<close> wrap as in Go.  \<^verbatim>\<open>MemoryPropertyFlags\<close>,
  \<^verbatim>\<open>MemoryUsage\<close> and the type indices are \<^verbatim>\<open>uint32\<close>, so they are \<^typ>\<open>32 word\<close>.
  A Go pointer is a natural-number address, \<open>None\<close> being \<^verbatim>\<open>nil\<close>; the objects pointed
  to live in explicit stores.  The mutexes are left out: every operation is modelled as
  the atomic step it is under its lock.
\<close>

type_synonym DeviceSize = "64 word"
type_synonym MemoryPropertyFlags = "32 word"
type_synonym MemoryUsage = "32 word"
type_synonym ptr = "nat option"

subsection \<open>Errors\<close>

text \<open>
  The source builds every error with \<^verbatim>\<open>fmt.Errorf\<close>; each constructor stands for one
  message:
  \<^item> \<open>TooManyAllocations\<close>: "maximum number of allocations (%d) reached";
  \<^item> \<open>NoSuitableMemoryType\<close>: "no suitable memory type found" (wrapped by Allocate in
    "failed to find suitable memory type: %w");
  \<^item> \<open>OutOfPoolMemory\<close>: "insufficient space in pool";
  \<^item> \<open>AllocationNotFoundInPool\<close>: "allocation not found in pool";
  \<^item> \<open>AllocationNotFoundInAllocator\<close>: "allocation not found in allocator";
  \<^item> \<open>NilAllocation\<close>: "cannot free nil allocation".
\<close>

datatype error =
    TooManyAllocations
  | NoSuitableMemoryType
  | OutOfPoolMemory
  | AllocationNotFoundInPool
  | AllocationNotFoundInAllocator
  | NilAllocation

subsection \<open>Data model\<close>

record MemoryBlock =
  mb_Offset :: DeviceSize
  mb_Size :: DeviceSize
  mb_InUse :: bool

record MemoryPool =
  mp_Memory :: DeviceSize
  mp_Size :: DeviceSize
  mp_TypeIndex :: "32 word"
  mp_Properties :: MemoryPropertyFlags
  mp_BlockSize :: DeviceSize
  mp_FreeBlocks :: "MemoryBlock list"
  mp_UsedBlocks :: "MemoryBlock list"

text \<open>
  A \<^verbatim>\<open>MemoryAllocation\<close> has no offset field: the offset of the span it stands for is
  recorded only in the used block that \<^verbatim>\<open>MemoryPool.Allocate\<close> appends.
\<close>

record MemoryAllocation =
  al_Memory :: DeviceSize
  al_Size :: DeviceSize
  al_TypeIndex :: "32 word"
  al_Properties :: MemoryPropertyFlags
  al_Mapped :: ptr
  al_RefCount :: "32 word"
  al_Pool :: ptr

subsection \<open>MemoryPool.Allocate\<close>

text \<open>\<^verbatim>\<open>alignedSize := (size + mp.BlockSize - 1) &^ (mp.BlockSize - 1)\<close>\<close>

definition alignedSize :: "DeviceSize \<Rightarrow> DeviceSize \<Rightarrow> DeviceSize" where
  "alignedSize size' blockSize = (size' + blockSize - 1) AND NOT (blockSize - 1)"

text \<open>
  The loop \<^verbatim>\<open>for i, block := range mp.FreeBlocks\<close> with its test
  \<^verbatim>\<open>block.Size >= alignedSize\<close>: the index and the value of the first block that passes,
  \<open>None\<close> when the loop runs to its end.
\<close>

fun scanFree :: "DeviceSize \<Rightarrow> nat \<Rightarrow> MemoryBlock list \<Rightarrow> (nat \<times> MemoryBlock) option" where
  "scanFree a i [] = None"
| "scanFree a i (block # rest) =
     (if mb_Size block \<ge> a then Some (i, block) else scanFree a (Suc i) rest)"

text \<open>
  The body of the loop at the matching index \<open>i\<close>: the optional append of the remainder,
  the append of the used block, then the removal of entry \<open>i\<close> of the free list by
  moving the last entry into its place and cutting the list by one.
\<close>

definition splitFree :: "MemoryBlock list \<Rightarrow> nat \<Rightarrow> MemoryBlock \<Rightarrow> DeviceSize \<Rightarrow> MemoryBlock list" where
  "splitFree free i block a =
     (let free1 = (if mb_Size block > a
                   then free @ [\<lparr>mb_Offset = mb_Offset block + a,
                                 mb_Size = mb_Size block - a,
                                 mb_InUse = False\<rparr>]
                   else free);
          free2 = (if i < length free1 - 1
                   then free1[i := free1 ! (length free1 - 1)]
                   else free1)
      in take (length free2 - 1) free2)"

definition MemoryPool_Allocate ::
  "nat \<Rightarrow> MemoryPool \<Rightarrow> DeviceSize \<Rightarrow> error + (MemoryAllocation \<times> MemoryPool)" where
  "MemoryPool_Allocate self mp size' =
     (let a = alignedSize size' (mp_BlockSize mp) in
      case scanFree a 0 (mp_FreeBlocks mp) of
        None \<Rightarrow> Inl OutOfPoolMemory
      | Some (i, block) \<Rightarrow>
          Inr (\<lparr>al_Memory = mp_Memory mp,
                al_Size = a,
                al_TypeIndex = mp_TypeIndex mp,
                al_Properties = mp_Properties mp,
                al_Mapped = None,
                al_RefCount = 1,
                al_Pool = Some self\<rparr>,
               mp\<lparr>mp_FreeBlocks := splitFree (mp_FreeBlocks mp) i block a,
                  mp_UsedBlocks := mp_UsedBlocks mp @
                     [\<lparr>mb_Offset = mb_Offset block, mb_Size = a, mb_InUse = True\<rparr>]\<rparr>))"

subsection \<open>MemoryPool.Free\<close>

text \<open>
  The loop \<^verbatim>\<open>for i, block := range mp.UsedBlocks\<close> with its test
  \<^verbatim>\<open>block.Offset == 0\<close>.
\<close>

fun scanUsed :: "nat \<Rightarrow> MemoryBlock list \<Rightarrow> (nat \<times> MemoryBlock) option" where
  "scanUsed i [] = None"
| "scanUsed i (block # rest) =
     (if mb_Offset block = 0 then Some (i, block) else scanUsed (Suc i) rest)"

text \<open>
  The argument \<open>allocation\<close> is never read by the source.
  \<^verbatim>\<open>append(mp.UsedBlocks[:i], mp.UsedBlocks[i+1:]...)\<close> is the list without entry \<open>i\<close>.
\<close>

definition MemoryPool_Free :: "MemoryPool \<Rightarrow> MemoryAllocation \<Rightarrow> error + MemoryPool" where
  "MemoryPool_Free mp allocation =
     (case scanUsed 0 (mp_UsedBlocks mp) of
        None \<Rightarrow> Inl AllocationNotFoundInPool
      | Some (i, freedBlock) \<Rightarrow>
          Inr (mp\<lparr>mp_UsedBlocks := take i (mp_UsedBlocks mp) @ drop (Suc i) (mp_UsedBlocks mp),
                  mp_FreeBlocks := mp_FreeBlocks mp @
                     [\<lparr>mb_Offset = mb_Offset freedBlock,
                       mb_Size = mb_Size freedBlock,
                       mb_InUse = False\<rparr>]\<rparr>))"

subsection \<open>MemoryPool.GetStats\<close>

record PoolStats =
  ps_TotalSize :: DeviceSize
  ps_UsedSize :: DeviceSize
  ps_FreeSize :: DeviceSize
  ps_BlockCount :: "32 word"
  ps_TypeIndex :: "32 word"
  ps_Properties :: MemoryPropertyFlags

definition MemoryPool_GetStats :: "MemoryPool \<Rightarrow> PoolStats" where
  "MemoryPool_GetStats mp =
     (let usedSize = foldl (\<lambda>acc block. acc + mb_Size block) 0 (mp_UsedBlocks mp) in
      \<lparr>ps_TotalSize = mp_Size mp,
       ps_UsedSize = usedSize,
       ps_FreeSize = mp_Size mp - usedSize,
       ps_BlockCount = of_nat (length (mp_UsedBlocks mp) + length (mp_FreeBlocks mp)),
       ps_TypeIndex = mp_TypeIndex mp,
       ps_Properties = mp_Properties mp\<rparr>)"

text \<open>
  The pool that \<^verbatim>\<open>createPool\<close> builds, given the property flags it reads from the
  device: one free block over the whole arena, 64 KiB blocks.
\<close>

definition newPool :: "32 word \<Rightarrow> MemoryPropertyFlags \<Rightarrow> DeviceSize \<Rightarrow> MemoryPool" where
  "newPool typeIndex props size' =
     \<lparr>mp_Memory = size',
      mp_Size = size',
      mp_TypeIndex = typeIndex,
      mp_Properties = props,
      mp_BlockSize = 64 * 1024,
      mp_FreeBlocks = [\<lparr>mb_Offset = 0, mb_Size = size', mb_InUse = False\<rparr>],
      mp_UsedBlocks = []\<rparr>"

subsection \<open>The device's memory types and the request\<close>

text \<open>
  \<^verbatim>\<open>PhysicalDeviceMemoryProperties\<close> holds \<^verbatim>\<open>MemoryTypes [32]MemoryType\<close>.  The array
  is a function of the index; the source reads it only at an index whose bit is set in a
  \<^verbatim>\<open>uint32\<close> mask, or at an index that \<^verbatim>\<open>findMemoryType\<close> returned, so only below 32.
  The heaps play no part in the allocator and are left out.
\<close>

record MemoryType =
  mt_PropertyFlags :: MemoryPropertyFlags
  mt_HeapIndex :: "32 word"

record PhysicalDeviceMemoryProperties =
  MemoryTypeCount :: "32 word"
  MemoryTypes :: "nat \<Rightarrow> MemoryType"

definition MemoryPropertyDeviceLocalBit :: MemoryPropertyFlags where
  "MemoryPropertyDeviceLocalBit = 0x00000001"
definition MemoryPropertyHostVisibleBit :: MemoryPropertyFlags where
  "MemoryPropertyHostVisibleBit = 0x00000002"
definition MemoryPropertyHostCoherentBit :: MemoryPropertyFlags where
  "MemoryPropertyHostCoherentBit = 0x00000004"
definition MemoryPropertyHostCachedBit :: MemoryPropertyFlags where
  "MemoryPropertyHostCachedBit = 0x00000008"
definition MemoryPropertyLazilyAllocatedBit :: MemoryPropertyFlags where
  "MemoryPropertyLazilyAllocatedBit = 0x00000010"

text \<open>\<^verbatim>\<open>MemoryUsage\<close> is a \<^verbatim>\<open>uint32\<close> with seven named values (\<^verbatim>\<open>iota\<close> from 0).\<close>

definition MemoryUsageUnknown :: MemoryUsage where "MemoryUsageUnknown = 0"
definition MemoryUsageGPUOnly :: MemoryUsage where "MemoryUsageGPUOnly = 1"
definition MemoryUsageCPUOnly :: MemoryUsage where "MemoryUsageCPUOnly = 2"
definition MemoryUsageCPUToGPU :: MemoryUsage where "MemoryUsageCPUToGPU = 3"
definition MemoryUsageGPUToCPU :: MemoryUsage where "MemoryUsageGPUToCPU = 4"
definition MemoryUsageCPUCopy :: MemoryUsage where "MemoryUsageCPUCopy = 5"
definition MemoryUsageGPULazilyAllocated :: MemoryUsage where "MemoryUsageGPULazilyAllocated = 6"

record MemoryRequirements =
  mr_Size :: DeviceSize
  mr_Alignment :: DeviceSize
  mr_MemoryTypeBits :: "32 word"

text \<open>\<^verbatim>\<open>UserData interface{}\<close> is never read and is left out.\<close>

record AllocationCreateInfo =
  ci_Usage :: MemoryUsage
  ci_RequiredFlags :: MemoryPropertyFlags
  ci_PreferredFlags :: MemoryPropertyFlags
  ci_Pool :: ptr

subsection \<open>MemoryAllocator.findMemoryType\<close>

text \<open>The \<^verbatim>\<open>switch createInfo.Usage\<close>: the pair (requiredFlags, preferredFlags) after it.\<close>

definition usageFlags :: "AllocationCreateInfo \<Rightarrow> MemoryPropertyFlags \<times> MemoryPropertyFlags" where
  "usageFlags createInfo =
     (let requiredFlags = ci_RequiredFlags createInfo;
          preferredFlags = ci_PreferredFlags createInfo;
          usage = ci_Usage createInfo
      in if usage = MemoryUsageGPUOnly then
           (requiredFlags OR MemoryPropertyDeviceLocalBit, preferredFlags)
         else if usage = MemoryUsageCPUOnly then
           (requiredFlags OR (MemoryPropertyHostVisibleBit OR MemoryPropertyHostCoherentBit),
            preferredFlags)
         else if usage = MemoryUsageCPUToGPU then
           (requiredFlags OR MemoryPropertyHostVisibleBit,
            preferredFlags OR MemoryPropertyDeviceLocalBit)
         else if usage = MemoryUsageGPUToCPU then
           (requiredFlags OR MemoryPropertyHostVisibleBit,
            preferredFlags OR MemoryPropertyHostCachedBit)
         else if usage = MemoryUsageCPUCopy then
           (requiredFlags OR (MemoryPropertyHostVisibleBit OR MemoryPropertyHostCoherentBit),
            preferredFlags)
         else if usage = MemoryUsageGPULazilyAllocated then
           (requiredFlags OR MemoryPropertyDeviceLocalBit,
            preferredFlags OR MemoryPropertyLazilyAllocatedBit)
         else (requiredFlags, preferredFlags))"

text \<open>
  \<^verbatim>\<open>(requirements.MemoryTypeBits&(1<<i)) != 0\<close> on \<^verbatim>\<open>uint32\<close>: a shift by 32 or more
  gives 0 in Go, as \<^const>\<open>push_bit\<close> does on a word.
\<close>

definition typeEnabled :: "32 word \<Rightarrow> nat \<Rightarrow> bool" where
  "typeEnabled bits i = (bits AND push_bit i 1 \<noteq> 0)"

text \<open>
  \<^verbatim>\<open>for i := uint32(0); i < memProps.MemoryTypeCount; i++\<close> with a test that returns
  \<open>i\<close>: the first index that passes, \<open>None\<close> when the loop ends.
\<close>

function scanTypes :: "(nat \<Rightarrow> bool) \<Rightarrow> nat \<Rightarrow> nat \<Rightarrow> nat option" where
  "scanTypes ok n i =
     (if i < n then (if ok i then Some i else scanTypes ok n (Suc i)) else None)"
  by pat_completeness auto
termination
  by (relation "measure (\<lambda>(ok, n, i). n - i)") auto

declare scanTypes.simps [simp del]

definition firstPass ::
  "PhysicalDeviceMemoryProperties \<Rightarrow> 32 word \<Rightarrow> MemoryPropertyFlags \<Rightarrow> MemoryPropertyFlags \<Rightarrow> nat \<Rightarrow> bool" where
  "firstPass memProps bits requiredFlags preferredFlags i =
     (typeEnabled bits i \<and>
      mt_PropertyFlags (MemoryTypes memProps i) AND requiredFlags = requiredFlags \<and>
      mt_PropertyFlags (MemoryTypes memProps i) AND preferredFlags = preferredFlags)"

definition secondPass ::
  "PhysicalDeviceMemoryProperties \<Rightarrow> 32 word \<Rightarrow> MemoryPropertyFlags \<Rightarrow> nat \<Rightarrow> bool" where
  "secondPass memProps bits requiredFlags i =
     (typeEnabled bits i \<and>
      mt_PropertyFlags (MemoryTypes memProps i) AND requiredFlags = requiredFlags)"

definition findMemoryType ::
  "PhysicalDeviceMemoryProperties \<Rightarrow> MemoryRequirements \<Rightarrow> AllocationCreateInfo \<Rightarrow> error + 32 word" where
  "findMemoryType memProps requirements createInfo =
     (let (requiredFlags, preferredFlags) = usageFlags createInfo;
          n = unat (MemoryTypeCount memProps);
          bits = mr_MemoryTypeBits requirements
      in case scanTypes (firstPass memProps bits requiredFlags preferredFlags) n 0 of
           Some i \<Rightarrow> Inr (of_nat i)
         | None \<Rightarrow>
             (case scanTypes (secondPass memProps bits requiredFlags) n 0 of
                Some i \<Rightarrow> Inr (of_nat i)
              | None \<Rightarrow> Inl NoSuitableMemoryType))"

subsection \<open>The allocator and the store of objects\<close>

text \<open>
  The table \<^verbatim>\<open>allocations map[vulkan.DeviceSize]*MemoryAllocation\<close> is keyed by the
  address of the allocation, \<^verbatim>\<open>DeviceSize(uintptr(unsafe.Pointer(alloc)))\<close>; it is an
  association list from the address to the pointer, written with \<^const>\<open>AList.update\<close>
  and \<^const>\<open>AList.delete\<close>, and \<^verbatim>\<open>len\<close> is its length.  \<^verbatim>\<open>pools\<close> is a list of
  pool pointers.  Of the device only the result of
  \<^verbatim>\<open>ma.device.GetPhysicalDevice().GetMemoryProperties()\<close> is read: the field
  \<open>ma_device\<close> holds these memory properties, the device pointers being valid.
\<close>

record MemoryAllocator =
  ma_device :: PhysicalDeviceMemoryProperties
  ma_allocations :: "(nat \<times> nat) list"
  ma_pools :: "nat list"
  ma_totalAllocated :: DeviceSize
  ma_maxAllocations :: "32 word"

text \<open>
  The store holds the objects behind the pointers: allocations and pools by address.
  \<^verbatim>\<open>&MemoryAllocation{...}\<close> and \<^verbatim>\<open>&MemoryPool{...}\<close> take the next unused address.
\<close>

record Store =
  st_allocs :: "nat \<Rightarrow> MemoryAllocation"
  st_pools :: "nat \<Rightarrow> MemoryPool"
  st_nextAlloc :: nat
  st_nextPool :: nat

definition NewMemoryAllocator :: "PhysicalDeviceMemoryProperties \<Rightarrow> MemoryAllocator" where
  "NewMemoryAllocator device =
     \<lparr>ma_device = device,
      ma_allocations = [],
      ma_pools = [],
      ma_totalAllocated = 0,
      ma_maxAllocations = 4096\<rparr>"

subsection \<open>MemoryAllocator.Allocate\<close>

text \<open>
  The three statements that follow every successful allocation in \<^verbatim>\<open>Allocate\<close>:
  \<^verbatim>\<open>ma.allocations[key] = alloc; ma.totalAllocated += alloc.Size; return alloc, nil\<close>,
  together with the placing of the new object \<^verbatim>\<open>&MemoryAllocation{...}\<close> in the store.
\<close>

definition register ::
  "MemoryAllocator \<Rightarrow> Store \<Rightarrow> MemoryAllocation \<Rightarrow> (error + nat) \<times> MemoryAllocator \<times> Store" where
  "register ma st alloc =
     (let a = st_nextAlloc st in
      (Inr a,
       ma\<lparr>ma_allocations := AList.update a a (ma_allocations ma),
          ma_totalAllocated := ma_totalAllocated ma + al_Size alloc\<rparr>,
       st\<lparr>st_allocs := (st_allocs st)(a := alloc), st_nextAlloc := Suc a\<rparr>))"

text \<open>\<^verbatim>\<open>pool.Allocate(size)\<close> through a pool pointer: the pool in the store is updated.\<close>

definition poolAllocate :: "Store \<Rightarrow> nat \<Rightarrow> DeviceSize \<Rightarrow> error + (MemoryAllocation \<times> Store)" where
  "poolAllocate st p size' =
     (case MemoryPool_Allocate p (st_pools st p) size' of
        Inl e \<Rightarrow> Inl e
      | Inr (alloc, mp') \<Rightarrow> Inr (alloc, st\<lparr>st_pools := (st_pools st)(p := mp')\<rparr>))"

text \<open>
  \<^verbatim>\<open>for _, pool := range ma.pools\<close>: the first pool of the wanted type whose
  \<^verbatim>\<open>Allocate\<close> succeeds.
\<close>

fun tryPools :: "Store \<Rightarrow> 32 word \<Rightarrow> DeviceSize \<Rightarrow> nat list \<Rightarrow> (MemoryAllocation \<times> Store) option" where
  "tryPools st memoryType size' [] = None"
| "tryPools st memoryType size' (p # ps) =
     (if mp_TypeIndex (st_pools st p) = memoryType then
        (case poolAllocate st p size' of
           Inr r \<Rightarrow> Some r
         | Inl e \<Rightarrow> tryPools st memoryType size' ps)
      else tryPools st memoryType size' ps)"

definition allocateDirect ::
  "PhysicalDeviceMemoryProperties \<Rightarrow> DeviceSize \<Rightarrow> 32 word \<Rightarrow> MemoryAllocation" where
  "allocateDirect memProps size' typeIndex =
     \<lparr>al_Memory = size',
      al_Size = size',
      al_TypeIndex = typeIndex,
      al_Properties = mt_PropertyFlags (MemoryTypes memProps (unat typeIndex)),
      al_Mapped = None,
      al_RefCount = 1,
      al_Pool = None\<rparr>"

definition createPool ::
  "PhysicalDeviceMemoryProperties \<Rightarrow> 32 word \<Rightarrow> DeviceSize \<Rightarrow> MemoryPool" where
  "createPool memProps typeIndex size' =
     newPool typeIndex (mt_PropertyFlags (MemoryTypes memProps (unat typeIndex))) size'"

definition MemoryAllocator_Allocate ::
  "MemoryAllocator \<Rightarrow> Store \<Rightarrow> MemoryRequirements \<Rightarrow> AllocationCreateInfo
     \<Rightarrow> (error + nat) \<times> MemoryAllocator \<times> Store" where
  "MemoryAllocator_Allocate ma st requirements createInfo =
     (if (of_nat (length (ma_allocations ma)) :: 32 word) \<ge> ma_maxAllocations ma then
        (Inl TooManyAllocations, ma, st)
      else
        case (case ci_Pool createInfo of
                None \<Rightarrow> None
              | Some p \<Rightarrow>
                  (case poolAllocate st p (mr_Size requirements) of
                     Inr r \<Rightarrow> Some r
                   | Inl e \<Rightarrow> None)) of
          Some (alloc, st') \<Rightarrow> register ma st' alloc
        | None \<Rightarrow>
            (case findMemoryType (ma_device ma) requirements createInfo of
               Inl e \<Rightarrow> (Inl e, ma, st)
             | Inr memoryType \<Rightarrow>
                 (case tryPools st memoryType (mr_Size requirements) (ma_pools ma) of
                    Some (alloc, st') \<Rightarrow> register ma st' alloc
                  | None \<Rightarrow>
                      if mr_Size requirements > 64 * 1024 * 1024 then
                        register ma st
                          (allocateDirect (ma_device ma) (mr_Size requirements) memoryType)
                      else
                        let p = st_nextPool st;
                            st1 = st\<lparr>st_pools := (st_pools st)
                                       (p := createPool (ma_device ma) memoryType
                                               (256 * 1024 * 1024)),
                                    st_nextPool := Suc p\<rparr>;
                            ma1 = ma\<lparr>ma_pools := ma_pools ma @ [p]\<rparr>
                        in case poolAllocate st1 p (mr_Size requirements) of
                             Inl e \<Rightarrow> (Inl e, ma1, st1)
                           | Inr (alloc, st2) \<Rightarrow> register ma1 st2 alloc)))"

subsection \<open>MemoryAllocator.Free\<close>

definition Unmap :: "Store \<Rightarrow> nat \<Rightarrow> Store" where
  "Unmap st a =
     (if al_Mapped (st_allocs st a) \<noteq> None
      then st\<lparr>st_allocs := (st_allocs st)(a := (st_allocs st a)\<lparr>al_Mapped := None\<rparr>)\<rparr>
      else st)"

text \<open>
  \<^verbatim>\<open>freeAllocationUnsafe\<close>; \<^verbatim>\<open>Free\<close> only takes the lock and calls it.  The result is
  the returned \<^verbatim>\<open>error\<close>, \<open>None\<close> for \<^verbatim>\<open>nil\<close>.  The table entry is deleted and the
  total reduced before \<^verbatim>\<open>allocation.Pool.Free\<close> is called, whose error is returned as
  it is.
\<close>

definition freeAllocationUnsafe ::
  "MemoryAllocator \<Rightarrow> Store \<Rightarrow> ptr \<Rightarrow> error option \<times> MemoryAllocator \<times> Store" where
  "freeAllocationUnsafe ma st allocation =
     (case allocation of
        None \<Rightarrow> (Some NilAllocation, ma, st)
      | Some a \<Rightarrow>
          let st1 = (if al_Mapped (st_allocs st a) \<noteq> None then Unmap st a else st);
              key = a
          in if map_of (ma_allocations ma) key = None then
               (Some AllocationNotFoundInAllocator, ma, st1)
             else
               let ma1 = ma\<lparr>ma_allocations := AList.delete key (ma_allocations ma),
                            ma_totalAllocated :=
                              ma_totalAllocated ma - al_Size (st_allocs st1 a)\<rparr>
               in case al_Pool (st_allocs st1 a) of
                    Some p \<Rightarrow>
                      (case MemoryPool_Free (st_pools st1 p) (st_allocs st1 a) of
                         Inl e \<Rightarrow> (Some e, ma1, st1)
                       | Inr mp' \<Rightarrow>
                           (None, ma1, st1\<lparr>st_pools := (st_pools st1)(p := mp')\<rparr>))
                  | None \<Rightarrow> (None, ma1, st1))"

definition MemoryAllocator_Free ::
  "MemoryAllocator \<Rightarrow> Store \<Rightarrow> ptr \<Rightarrow> error option \<times> MemoryAllocator \<times> Store" where
  "MemoryAllocator_Free ma st allocation = freeAllocationUnsafe ma st allocation"

subsection \<open>Sequences of calls\<close>

datatype pool_call = PoolAllocate DeviceSize | PoolFree MemoryAllocation

text \<open>A call on a pool at address \<open>self\<close>; a call that fails leaves the pool as it is.\<close>

fun pool_step :: "nat \<Rightarrow> MemoryPool \<Rightarrow> pool_call \<Rightarrow> MemoryPool" where
  "pool_step self mp (PoolAllocate size') =
     (case MemoryPool_Allocate self mp size' of Inl e \<Rightarrow> mp | Inr (alloc, mp') \<Rightarrow> mp')"
| "pool_step self mp (PoolFree allocation) =
     (case MemoryPool_Free mp allocation of Inl e \<Rightarrow> mp | Inr mp' \<Rightarrow> mp')"

definition pool_run :: "nat \<Rightarrow> MemoryPool \<Rightarrow> pool_call list \<Rightarrow> MemoryPool" where
  "pool_run self mp calls = foldl (pool_step self) mp calls"

datatype call = Allocate MemoryRequirements AllocationCreateInfo | Free ptr

fun step :: "MemoryAllocator \<times> Store \<Rightarrow> call \<Rightarrow> MemoryAllocator \<times> Store" where
  "step (ma, st) (Allocate requirements createInfo) =
     snd (MemoryAllocator_Allocate ma st requirements createInfo)"
| "step (ma, st) (Free allocation) = snd (MemoryAllocator_Free ma st allocation)"

definition run :: "MemoryAllocator \<times> Store \<Rightarrow> call list \<Rightarrow> MemoryAllocator \<times> Store" where
  "run s calls = foldl step s calls"

text \<open>The sum of the \<^verbatim>\<open>Size\<close> fields of the entries of the table, in \<^verbatim>\<open>DeviceSize\<close>.\<close>

definition liveSizes :: "MemoryAllocator \<Rightarrow> Store \<Rightarrow> DeviceSize list" where
  "liveSizes ma st = map (\<lambda>(key, p). al_Size (st_allocs st p)) (ma_allocations ma)"

subsection \<open>Measures and example states used in the statements\<close>

text \<open>The bytes covered by a list of blocks, as a natural number (no wrap-around).\<close>

definition totalSize :: "MemoryBlock list \<Rightarrow> nat" where
  "totalSize blocks = sum_list (map (\<lambda>b. unat (mb_Size b)) blocks)"

definition conserved :: "MemoryPool \<Rightarrow> bool" where
  "conserved mp \<longleftrightarrow>
     totalSize (mp_FreeBlocks mp) + totalSize (mp_UsedBlocks mp) = unat (mp_Size mp)"

text \<open>Block \<open>a\<close> ends where block \<open>b\<close> starts.\<close>

definition adjacent :: "MemoryBlock \<Rightarrow> MemoryBlock \<Rightarrow> bool" where
  "adjacent a b \<longleftrightarrow> mb_Offset a + mb_Size a = mb_Offset b"

text \<open>
  The pool of the example scenario: 1,048,576 bytes in 65,536-byte blocks, device-local,
  at address 0, and the states it goes through.  Every allocation it hands out for a
  request of 10,000 bytes has the same field values.
\<close>

definition examplePool :: MemoryPool where
  "examplePool = newPool 0 MemoryPropertyDeviceLocalBit 1048576"

definition exampleAllocation :: "DeviceSize \<Rightarrow> MemoryAllocation" where
  "exampleAllocation size' =
     \<lparr>al_Memory = 1048576, al_Size = size', al_TypeIndex = 0, al_Properties = 1,
      al_Mapped = None, al_RefCount = 1, al_Pool = Some 0\<rparr>"

definition afterFirstAllocate :: MemoryPool where
  "afterFirstAllocate = examplePool
     \<lparr>mp_FreeBlocks := [\<lparr>mb_Offset = 65536, mb_Size = 983040, mb_InUse = False\<rparr>],
      mp_UsedBlocks := [\<lparr>mb_Offset = 0, mb_Size = 65536, mb_InUse = True\<rparr>]\<rparr>"

definition afterSecondAllocate :: MemoryPool where
  "afterSecondAllocate = examplePool
     \<lparr>mp_FreeBlocks := [\<lparr>mb_Offset = 131072, mb_Size = 917504, mb_InUse = False\<rparr>],
      mp_UsedBlocks := [\<lparr>mb_Offset = 0, mb_Size = 65536, mb_InUse = True\<rparr>,
                        \<lparr>mb_Offset = 65536, mb_Size = 65536, mb_InUse = True\<rparr>]\<rparr>"

definition afterFreeOfSecond :: MemoryPool where
  "afterFreeOfSecond = examplePool
     \<lparr>mp_FreeBlocks := [\<lparr>mb_Offset = 131072, mb_Size = 917504, mb_InUse = False\<rparr>,
                        \<lparr>mb_Offset = 0, mb_Size = 65536, mb_InUse = False\<rparr>],
      mp_UsedBlocks := [\<lparr>mb_Offset = 65536, mb_Size = 65536, mb_InUse = True\<rparr>]\<rparr>"

definition afterAllocateFree :: MemoryPool where
  "afterAllocateFree = examplePool
     \<lparr>mp_FreeBlocks := [\<lparr>mb_Offset = 65536, mb_Size = 983040, mb_InUse = False\<rparr>,
                        \<lparr>mb_Offset = 0, mb_Size = 65536, mb_InUse = False\<rparr>],
      mp_UsedBlocks := []\<rparr>"

subsection \<open>The type resolution as the specification words it\<close>

text \<open>
  The table of the specification: for each usage the required and the preferred flags it
  adds (a usage outside the table adds none), and their union with the explicit flags of
  the request.
\<close>

definition usageTable :: "(MemoryUsage \<times> MemoryPropertyFlags \<times> MemoryPropertyFlags) list" where
  "usageTable =
     [(MemoryUsageGPUOnly, MemoryPropertyDeviceLocalBit, 0),
      (MemoryUsageCPUOnly, MemoryPropertyHostVisibleBit OR MemoryPropertyHostCoherentBit, 0),
      (MemoryUsageCPUToGPU, MemoryPropertyHostVisibleBit, MemoryPropertyDeviceLocalBit),
      (MemoryUsageGPUToCPU, MemoryPropertyHostVisibleBit, MemoryPropertyHostCachedBit),
      (MemoryUsageCPUCopy, MemoryPropertyHostVisibleBit OR MemoryPropertyHostCoherentBit, 0),
      (MemoryUsageGPULazilyAllocated, MemoryPropertyDeviceLocalBit, MemoryPropertyLazilyAllocatedBit),
      (MemoryUsageUnknown, 0, 0)]"

text \<open>Required and preferred flags after the translation and the union.\<close>

definition requiredOf :: "AllocationCreateInfo \<Rightarrow> MemoryPropertyFlags" where
  "requiredOf createInfo =
     ci_RequiredFlags createInfo OR
       (case map_of usageTable (ci_Usage createInfo) of None \<Rightarrow> 0 | Some (r, p) \<Rightarrow> r)"

definition preferredOf :: "AllocationCreateInfo \<Rightarrow> MemoryPropertyFlags" where
  "preferredOf createInfo =
     ci_PreferredFlags createInfo OR
       (case map_of usageTable (ci_Usage createInfo) of None \<Rightarrow> 0 | Some (r, p) \<Rightarrow> p)"

text \<open>
  Index \<open>i\<close> is one of the device's memory types, is enabled in the mask, and its
  property flags are a superset of \<open>flags\<close>.
\<close>

definition suitable ::
  "PhysicalDeviceMemoryProperties \<Rightarrow> 32 word \<Rightarrow> MemoryPropertyFlags \<Rightarrow> nat \<Rightarrow> bool" where
  "suitable memProps bits flags i \<longleftrightarrow>
     i < unat (MemoryTypeCount memProps) \<and> bit bits i \<and>
     mt_PropertyFlags (MemoryTypes memProps i) AND flags = flags"

text \<open>
  The bookkeeping invariant of the allocator: the keys of the table are distinct, every
  entry maps the address of an allocation made earlier to that same address, the total
  is the sum of the sizes of the entries, and the table holds at most 4096 entries.
\<close>

definition tracked :: "MemoryAllocator \<Rightarrow> Store \<Rightarrow> bool" where
  "tracked ma st \<longleftrightarrow>
     distinct (map fst (ma_allocations ma)) \<and>
     (\<forall>e \<in> set (ma_allocations ma). snd e = fst e \<and> fst e < st_nextAlloc st) \<and>
     ma_totalAllocated ma = sum_list (liveSizes ma st) \<and>
     length (ma_allocations ma) \<le> 4096 \<and>
     ma_maxAllocations ma = 4096"

text \<open>
  A device with one device-local memory type, a store whose pool addresses all hold the
  example pool, a request large enough to be served directly and a small one, and the
  states of two short runs from a new allocator.
\<close>

definition exampleDevice :: PhysicalDeviceMemoryProperties where
  "exampleDevice =
     \<lparr>MemoryTypeCount = 1,
      MemoryTypes = (\<lambda>i. \<lparr>mt_PropertyFlags = MemoryPropertyDeviceLocalBit, mt_HeapIndex = 0\<rparr>)\<rparr>"

definition exampleStore :: Store where
  "exampleStore =
     \<lparr>st_allocs = (\<lambda>a. exampleAllocation 0),
      st_pools = (\<lambda>p. examplePool),
      st_nextAlloc = 0,
      st_nextPool = 0\<rparr>"

definition directRequest :: MemoryRequirements where
  "directRequest = \<lparr>mr_Size = 128 * 1024 * 1024, mr_Alignment = 65536, mr_MemoryTypeBits = 1\<rparr>"

definition smallRequest :: MemoryRequirements where
  "smallRequest = \<lparr>mr_Size = 10000, mr_Alignment = 256, mr_MemoryTypeBits = 1\<rparr>"

definition gpuOnly :: AllocationCreateInfo where
  "gpuOnly = \<lparr>ci_Usage = MemoryUsageGPUOnly, ci_RequiredFlags = 0, ci_PreferredFlags = 0,
              ci_Pool = None\<rparr>"

definition afterThreeCalls :: "MemoryAllocator \<times> Store" where
  "afterThreeCalls =
     run (NewMemoryAllocator exampleDevice, exampleStore)
       [Allocate smallRequest gpuOnly, Allocate smallRequest gpuOnly, Free (Some 1)]"

definition afterDirectAndFree :: "MemoryAllocator \<times> Store" where
  "afterDirectAndFree =
     run (NewMemoryAllocator exampleDevice, exampleStore)
       [Allocate directRequest gpuOnly, Free (Some 0)]"

text \<open>
  A request of \<open>2^63\<close> bytes, served directly, and the states after two such
  allocations and after two direct allocations of 128 MiB.
\<close>

definition hugeRequest :: MemoryRequirements where
  "hugeRequest = \<lparr>mr_Size = 9223372036854775808, mr_Alignment = 65536, mr_MemoryTypeBits = 1\<rparr>"

definition afterTwoHuge :: "MemoryAllocator \<times> Store" where
  "afterTwoHuge =
     run (NewMemoryAllocator exampleDevice, exampleStore)
       [Allocate hugeRequest gpuOnly, Allocate hugeRequest gpuOnly]"

definition afterTwoDirect :: "MemoryAllocator \<times> Store" where
  "afterTwoDirect =
     run (NewMemoryAllocator exampleDevice, exampleStore)
       [Allocate directRequest gpuOnly, Allocate directRequest gpuOnly]"

text \<open>Every block of the list has a size that is a multiple of 65,536 bytes.\<close>

definition blockAligned :: "MemoryBlock list \<Rightarrow> bool" where
  "blockAligned blocks \<longleftrightarrow> list_all (\<lambda>b. 65536 dvd unat (mb_Size b)) blocks"

section \<open>Properties of the pool\<close>

lemmas example_defs =
  examplePool_def exampleAllocation_def afterFirstAllocate_def afterSecondAllocate_def
  afterFreeOfSecond_def afterAllocateFree_def newPool_def MemoryPropertyDeviceLocalBit_def

lemmas pool_defs = MemoryPool_Allocate_def MemoryPool_Free_def alignedSize_def splitFree_def

subsection \<open>Conservation of the arena\<close>

lemma totalSize_simps [simp]:
  "totalSize [] = 0"
  "totalSize (b # bs) = unat (mb_Size b) + totalSize bs"
  "totalSize (xs @ ys) = totalSize xs + totalSize ys"
  by (simp_all add: totalSize_def)

lemma scanFree_Some:
  "scanFree a i fs = Some (j, b) \<Longrightarrow>
     i \<le> j \<and> j - i < length fs \<and> fs ! (j - i) = b \<and> a \<le> mb_Size b"
proof (induction fs arbitrary: i)
  case Nil
  then show ?case by simp
next
  case (Cons f fs)
  show ?case
  proof (cases "a \<le> mb_Size f")
    case True
    with Cons.prems show ?thesis by simp
  next
    case False
    with Cons.prems have "scanFree a (Suc i) fs = Some (j, b)" by simp
    from Cons.IH [OF this] show ?thesis
      by (auto simp: Suc_diff_Suc less_eq_Suc_le)
  qed
qed

lemma totalSize_update:
  "i < length fs \<Longrightarrow> totalSize (fs[i := v]) + unat (mb_Size (fs ! i)) = totalSize fs + unat (mb_Size v)"
proof (induction fs arbitrary: i)
  case Nil
  then show ?case by simp
next
  case (Cons f fs)
  then show ?case by (cases i) auto
qed

lemma totalSize_remove:
  "i < length us \<Longrightarrow>
     totalSize (take i us @ drop (Suc i) us) + unat (mb_Size (us ! i)) = totalSize us"
proof -
  assume "i < length us"
  then have "us = take i us @ us ! i # drop (Suc i) us"
    by (rule id_take_nth_drop)
  then have "totalSize us = totalSize (take i us @ us ! i # drop (Suc i) us)"
    by simp
  then show ?thesis by simp
qed

lemma totalSize_butlast:
  "fs \<noteq> [] \<Longrightarrow> totalSize (take (length fs - 1) fs) + unat (mb_Size (last fs)) = totalSize fs"
proof -
  assume ne: "fs \<noteq> []"
  then have "totalSize (butlast fs @ [last fs]) = totalSize fs" by simp
  then show ?thesis by (simp add: butlast_conv_take)
qed

lemma splitFree_split:
  assumes "i < length fs" "a < mb_Size (fs ! i)"
  shows "splitFree fs i (fs ! i) a =
           fs[i := \<lparr>mb_Offset = mb_Offset (fs ! i) + a, mb_Size = mb_Size (fs ! i) - a, mb_InUse = False\<rparr>]"
  using assms by (simp add: splitFree_def Let_def list_update_append nth_append)

lemma splitFree_exact:
  assumes "i < length fs" "\<not> a < mb_Size (fs ! i)"
  shows "splitFree fs i (fs ! i) a =
           (if i < length fs - 1 then take (length fs - 1) (fs[i := fs ! (length fs - 1)])
            else take (length fs - 1) fs)"
  using assms by (simp add: splitFree_def Let_def)

lemma totalSize_splitFree:
  assumes i: "i < length fs" and le: "a \<le> mb_Size (fs ! i)"
  shows "totalSize (splitFree fs i (fs ! i) a) + unat a = totalSize fs"
proof (cases "a < mb_Size (fs ! i)")
  case True
  let ?tail = "\<lparr>mb_Offset = mb_Offset (fs ! i) + a, mb_Size = mb_Size (fs ! i) - a, mb_InUse = False\<rparr>"
  have "unat (mb_Size (fs ! i) - a) = unat (mb_Size (fs ! i)) - unat a"
    using le by (simp add: unat_sub)
  moreover have "unat a \<le> unat (mb_Size (fs ! i))"
    using le by (simp add: word_le_nat_alt)
  moreover have "totalSize (fs[i := ?tail]) + unat (mb_Size (fs ! i)) = totalSize fs + unat (mb_Size ?tail)"
    using i by (rule totalSize_update)
  ultimately show ?thesis
    using True i by (simp add: splitFree_split)
next
  case False
  with le have eq: "mb_Size (fs ! i) = a" by simp
  from i have ne: "fs \<noteq> []" by auto
  show ?thesis
  proof (cases "i < length fs - 1")
    case True
    let ?g = "fs[i := fs ! (length fs - 1)]"
    have l: "last ?g = last fs"
      using True ne by (simp add: last_conv_nth)
    have "?g \<noteq> []" using ne by simp
    then have "totalSize (take (length ?g - 1) ?g) + unat (mb_Size (last ?g)) = totalSize ?g"
      by (rule totalSize_butlast)
    moreover have "totalSize ?g + unat (mb_Size (fs ! i)) = totalSize fs + unat (mb_Size (fs ! (length fs - 1)))"
      using i by (rule totalSize_update)
    moreover have "last fs = fs ! (length fs - 1)"
      using ne by (simp add: last_conv_nth)
    ultimately show ?thesis
      using True False i l eq by (simp add: splitFree_exact)
  next
    case F2: False
    with i have ii: "i = length fs - 1" by simp
    have "totalSize (take (length fs - 1) fs) + unat (mb_Size (last fs)) = totalSize fs"
      using ne by (rule totalSize_butlast)
    moreover have "last fs = fs ! i"
      using ne ii by (simp add: last_conv_nth)
    ultimately show ?thesis
      using F2 False i eq by (simp add: splitFree_exact)
  qed
qed

lemma Allocate_conserved:
  assumes "MemoryPool_Allocate self mp s = Inr (alloc, mp')" "conserved mp"
  shows "conserved mp' \<and> mp_Size mp' = mp_Size mp"
proof -
  let ?a = "alignedSize s (mp_BlockSize mp)"
  from assms(1) obtain i b where sc: "scanFree ?a 0 (mp_FreeBlocks mp) = Some (i, b)"
    and mp': "mp' = mp\<lparr>mp_FreeBlocks := splitFree (mp_FreeBlocks mp) i b ?a,
                  mp_UsedBlocks := mp_UsedBlocks mp @
                     [\<lparr>mb_Offset = mb_Offset b, mb_Size = ?a, mb_InUse = True\<rparr>]\<rparr>"
    by (auto simp: MemoryPool_Allocate_def Let_def split: option.splits)
  from scanFree_Some [OF sc] have i: "i < length (mp_FreeBlocks mp)"
    and b: "mp_FreeBlocks mp ! i = b" and le: "?a \<le> mb_Size b" by auto
  from totalSize_splitFree [OF i] le b
  have "totalSize (splitFree (mp_FreeBlocks mp) i b ?a) + unat ?a = totalSize (mp_FreeBlocks mp)"
    by simp
  with assms(2) show ?thesis by (simp add: conserved_def mp')
qed

lemma scanUsed_Some:
  "scanUsed i us = Some (j, b) \<Longrightarrow>
     i \<le> j \<and> j - i < length us \<and> us ! (j - i) = b \<and> mb_Offset b = 0"
proof (induction us arbitrary: i)
  case Nil
  then show ?case by simp
next
  case (Cons u us)
  show ?case
  proof (cases "mb_Offset u = 0")
    case True
    with Cons.prems show ?thesis by simp
  next
    case False
    with Cons.prems have "scanUsed (Suc i) us = Some (j, b)" by simp
    from Cons.IH [OF this] show ?thesis
      by (auto simp: Suc_diff_Suc less_eq_Suc_le)
  qed
qed

lemma Free_conserved:
  assumes "MemoryPool_Free mp allocation = Inr mp'" "conserved mp"
  shows "conserved mp' \<and> mp_Size mp' = mp_Size mp"
proof -
  from assms(1) obtain i b where sc: "scanUsed 0 (mp_UsedBlocks mp) = Some (i, b)"
    and mp': "mp' = mp\<lparr>mp_UsedBlocks := take i (mp_UsedBlocks mp) @ drop (Suc i) (mp_UsedBlocks mp),
                  mp_FreeBlocks := mp_FreeBlocks mp @
                     [\<lparr>mb_Offset = mb_Offset b, mb_Size = mb_Size b, mb_InUse = False\<rparr>]\<rparr>"
    by (auto simp: MemoryPool_Free_def split: option.splits)
  from scanUsed_Some [OF sc] have i: "i < length (mp_UsedBlocks mp)"
    and b: "mp_UsedBlocks mp ! i = b" by auto
  from totalSize_remove [OF i] b
  have "totalSize (take i (mp_UsedBlocks mp) @ drop (Suc i) (mp_UsedBlocks mp)) + unat (mb_Size b)
          = totalSize (mp_UsedBlocks mp)" by simp
  with assms(2) show ?thesis by (simp add: conserved_def mp')
qed

lemma pool_step_conserved:
  "conserved mp \<Longrightarrow> conserved (pool_step self mp c) \<and> mp_Size (pool_step self mp c) = mp_Size mp"
proof (cases c)
  case (PoolAllocate s)
  assume "conserved mp"
  then show ?thesis
    using PoolAllocate Allocate_conserved [of self mp s]
    by (auto split: sum.splits)
next
  case (PoolFree al)
  assume "conserved mp"
  then show ?thesis
    using PoolFree Free_conserved [of mp al]
    by (auto split: sum.splits)
qed

lemma pool_run_conserved:
  "conserved mp \<Longrightarrow> conserved (pool_run self mp calls) \<and> mp_Size (pool_run self mp calls) = mp_Size mp"
proof (induction calls arbitrary: mp)
  case Nil
  then show ?case by (simp add: pool_run_def)
next
  case (Cons c calls)
  from pool_step_conserved [OF Cons.prems, of self c]
  have 1: "conserved (pool_step self mp c)" and 2: "mp_Size (pool_step self mp c) = mp_Size mp"
    by auto
  from Cons.IH [OF 1] 2 show ?case by (simp add: pool_run_def)
qed

lemma newPool_conserved: "conserved (newPool t props sz)"
  by (simp add: conserved_def newPool_def)

lemma foldl_usedSize:
  "totalSize us + unat acc < 2 ^ 64 \<Longrightarrow>
     unat (foldl (\<lambda>acc block. acc + mb_Size block) acc us) = unat acc + totalSize us"
proof (induction us arbitrary: acc)
  case Nil
  then show ?case by simp
next
  case (Cons u us)
  from Cons.prems have lt: "unat acc + unat (mb_Size u) < 2 ^ 64" by simp
  then have u: "unat (acc + mb_Size u) = unat acc + unat (mb_Size u)"
    by (simp add: unat_word_ariths)
  with Cons.prems have "totalSize us + unat (acc + mb_Size u) < 2 ^ 64" by simp
  from Cons.IH [OF this] u show ?case by simp
qed

lemma GetStats_conserved:
  assumes "conserved mp"
  shows "unat (ps_UsedSize (MemoryPool_GetStats mp)) = totalSize (mp_UsedBlocks mp)"
    and "unat (ps_FreeSize (MemoryPool_GetStats mp)) = totalSize (mp_FreeBlocks mp)"
proof -
  have "unat (mp_Size mp) < 2 ^ 64" using unsigned_less [of "mp_Size mp"] by simp
  with assms have lt: "totalSize (mp_UsedBlocks mp) + unat (0 :: 64 word) < 2 ^ 64"
    by (simp add: conserved_def)
  from foldl_usedSize [OF lt]
  have u: "unat (foldl (\<lambda>acc block. acc + mb_Size block) 0 (mp_UsedBlocks mp)) = totalSize (mp_UsedBlocks mp)"
    by simp
  then show "unat (ps_UsedSize (MemoryPool_GetStats mp)) = totalSize (mp_UsedBlocks mp)"
    by (simp add: MemoryPool_GetStats_def Let_def)
  from u assms have le: "foldl (\<lambda>acc block. acc + mb_Size block) 0 (mp_UsedBlocks mp) \<le> mp_Size mp"
    by (simp add: word_le_nat_alt conserved_def)
  from le u assms show "unat (ps_FreeSize (MemoryPool_GetStats mp)) = totalSize (mp_FreeBlocks mp)"
    by (simp add: MemoryPool_GetStats_def Let_def unat_sub conserved_def)
qed

text \<open>
  Claim C9.  In every pool state reached from a freshly created pool by any sequence of
  \<^verbatim>\<open>MemoryPool.Allocate\<close> and \<^verbatim>\<open>MemoryPool.Free\<close> calls (failed calls included), the
  sizes of the free blocks and of the used blocks add up, without wrap-around, to the
  pool's \<^verbatim>\<open>Size\<close>; so the \<^verbatim>\<open>FreeSize\<close> that \<^verbatim>\<open>GetStats\<close> reports, \<^verbatim>\<open>Size\<close> minus the
  used sizes, is the total of the free blocks.
\<close>

theorem pool_size_conservation:
  "totalSize (mp_FreeBlocks (pool_run self (newPool t props sz) calls)) +
   totalSize (mp_UsedBlocks (pool_run self (newPool t props sz) calls)) = unat sz \<and>
   mp_Size (pool_run self (newPool t props sz) calls) = sz \<and>
   unat (ps_FreeSize (MemoryPool_GetStats (pool_run self (newPool t props sz) calls))) =
     unat sz - totalSize (mp_UsedBlocks (pool_run self (newPool t props sz) calls)) \<and>
   unat (ps_FreeSize (MemoryPool_GetStats (pool_run self (newPool t props sz) calls))) =
     totalSize (mp_FreeBlocks (pool_run self (newPool t props sz) calls))"
proof -
  let ?mp = "pool_run self (newPool t props sz) calls"
  from pool_run_conserved [OF newPool_conserved, of self t props sz calls]
  have c: "conserved ?mp" and s: "mp_Size ?mp = sz"
    by (auto simp: newPool_def)
  from GetStats_conserved(2) [OF c] c s show ?thesis
    by (simp add: conserved_def)
qed


subsection \<open>Free and the offset of the freed allocation\<close>

text \<open>
  Claim C1.  The claim asks \<^verbatim>\<open>Free\<close> to remove the used block of the freed allocation
  and to fail exactly when that block is missing.  The source tests
  \<^verbatim>\<open>block.Offset == 0\<close> (marked "TODO: Proper offset matching") and never reads the
  allocation.  In the example pool two allocations are made, at offsets 0 and 65536;
  freeing the second removes the used block at offset 0 and keeps the block at 65536;
  freeing the second once more fails although its block is still in the used list.
\<close>

theorem pool_Free_takes_block_at_offset_zero:
  "MemoryPool_Allocate 0 examplePool 10000 = Inr (exampleAllocation 65536, afterFirstAllocate) \<and>
   MemoryPool_Allocate 0 afterFirstAllocate 10000 =
     Inr (exampleAllocation 65536, afterSecondAllocate) \<and>
   mp_UsedBlocks afterSecondAllocate =
     [\<lparr>mb_Offset = 0, mb_Size = 65536, mb_InUse = True\<rparr>,
      \<lparr>mb_Offset = 65536, mb_Size = 65536, mb_InUse = True\<rparr>] \<and>
   MemoryPool_Free afterSecondAllocate (exampleAllocation 65536) = Inr afterFreeOfSecond \<and>
   mp_UsedBlocks afterFreeOfSecond = [\<lparr>mb_Offset = 65536, mb_Size = 65536, mb_InUse = True\<rparr>] \<and>
   MemoryPool_Free afterFreeOfSecond (exampleAllocation 65536) = Inl AllocationNotFoundInPool"
  by (simp add: example_defs pool_defs)

lemma scanUsed_find:
  "scanUsed n us =
     (case find (\<lambda>b. mb_Offset b = 0) us of
        None \<Rightarrow> None
      | Some b \<Rightarrow> Some (n + length (takeWhile (\<lambda>b. mb_Offset b \<noteq> 0) us), b))"
  by (induction us arbitrary: n) (auto split: option.splits)

text \<open>
  What \<^verbatim>\<open>Free\<close> does on every pool, whatever the allocation: it fails exactly when no
  used block has offset 0; otherwise it removes the first used block with offset 0 from
  the used list and appends a free block of the same span to the free list.
\<close>

theorem pool_Free_first_block_at_offset_zero:
  "MemoryPool_Free mp allocation =
     (let us = mp_UsedBlocks mp;
          i = length (takeWhile (\<lambda>b. mb_Offset b \<noteq> 0) us)
      in case find (\<lambda>b. mb_Offset b = 0) us of
           None \<Rightarrow> Inl AllocationNotFoundInPool
         | Some block \<Rightarrow>
             Inr (mp\<lparr>mp_UsedBlocks := take i us @ drop (Suc i) us,
                     mp_FreeBlocks := mp_FreeBlocks mp @
                       [\<lparr>mb_Offset = 0, mb_Size = mb_Size block, mb_InUse = False\<rparr>]\<rparr>))"
proof (cases "find (\<lambda>b. mb_Offset b = 0) (mp_UsedBlocks mp)")
  case None
  then show ?thesis by (simp add: MemoryPool_Free_def scanUsed_find)
next
  case (Some block)
  then have "mb_Offset block = 0" by (auto simp: find_Some_iff)
  with Some show ?thesis by (simp add: MemoryPool_Free_def scanUsed_find Let_def)
qed

subsection \<open>Free and coalescing\<close>

text \<open>
  Claim C2.  The claim asks that after a successful \<^verbatim>\<open>Free\<close> no two free blocks are
  adjacent.  The source appends the freed block and stops ("TODO: Coalesce adjacent free
  blocks for efficiency").  After one allocation and its release in the example pool
  the free list holds the blocks [65536, 1048576) and [0, 65536), and the second ends
  where the first starts.
\<close>

theorem pool_Free_leaves_adjacent_free_blocks:
  "MemoryPool_Free afterFirstAllocate (exampleAllocation 65536) = Inr afterAllocateFree \<and>
   mp_FreeBlocks afterAllocateFree =
     [\<lparr>mb_Offset = 65536, mb_Size = 983040, mb_InUse = False\<rparr>,
      \<lparr>mb_Offset = 0, mb_Size = 65536, mb_InUse = False\<rparr>] \<and>
   mp_FreeBlocks afterAllocateFree ! 1 \<noteq> mp_FreeBlocks afterAllocateFree ! 0 \<and>
   adjacent (mp_FreeBlocks afterAllocateFree ! 1) (mp_FreeBlocks afterAllocateFree ! 0)"
  by (simp add: example_defs pool_defs adjacent_def)

subsection \<open>Allocate followed by Free\<close>

text \<open>
  Claim C4.  The claim asks that \<^verbatim>\<open>Allocate(n)\<close> followed by \<^verbatim>\<open>Free\<close> on a pool in its
  initial state gives back the single free block over the arena.  Without coalescing
  the example pool ends with two free blocks, the remainder and the released head, and
  so differs from its initial state; only the used list is empty again.
\<close>

theorem pool_Allocate_Free_keeps_the_split:
  "mp_FreeBlocks examplePool = [\<lparr>mb_Offset = 0, mb_Size = 1048576, mb_InUse = False\<rparr>] \<and>
   mp_UsedBlocks examplePool = [] \<and>
   MemoryPool_Allocate 0 examplePool 10000 = Inr (exampleAllocation 65536, afterFirstAllocate) \<and>
   MemoryPool_Free afterFirstAllocate (exampleAllocation 65536) = Inr afterAllocateFree \<and>
   afterAllocateFree \<noteq> examplePool \<and>
   length (mp_FreeBlocks afterAllocateFree) = 2 \<and>
   mp_UsedBlocks afterAllocateFree = []"
  by (simp add: example_defs pool_defs)

subsection \<open>Rounding to the block size\<close>

lemma and_not_mask_push_drop: "(x :: 64 word) AND NOT (mask k) = push_bit k (drop_bit k x)"
  by (rule bit_eqI) (auto simp: bit_simps)

lemma unat_and_not_mask: "unat ((x :: 64 word) AND NOT (mask k)) = (unat x div 2 ^ k) * 2 ^ k"
proof -
  have le: "(unat x div 2 ^ k) * 2 ^ k \<le> unat x" by simp
  have "unat x < 2 ^ 64" using unsigned_less [of x] by simp
  with le have lt: "(unat x div 2 ^ k) * 2 ^ k < 2 ^ 64" by linarith
  have "unat (push_bit k (drop_bit k x)) = take_bit 64 (push_bit k (drop_bit k (unat x)))"
    by (simp add: unsigned_push_bit_eq unat_drop_bit_eq)
  also have "\<dots> = take_bit 64 ((unat x div 2 ^ k) * 2 ^ k)"
    by (simp add: push_bit_eq_mult drop_bit_eq_div)
  also have "\<dots> = (unat x div 2 ^ k) * 2 ^ k"
    using lt by (simp add: take_bit_nat_eq_self)
  finally show ?thesis by (simp add: and_not_mask_push_drop)
qed

lemma alignedSize_pow2:
  assumes k: "k < 64" and nover: "unat s + 2 ^ k - 1 < 2 ^ 64"
  shows "unat (alignedSize s (2 ^ k)) = ((unat s + 2 ^ k - 1) div 2 ^ k) * 2 ^ k"
proof -
  have m: "(2 ^ k :: 64 word) - 1 = mask k" by (simp add: mask_eq_decr_exp)
  have pos: "(0::nat) < 2 ^ k" by simp
  have "s + 2 ^ k - 1 = s + (2 ^ k - 1)" by simp
  have lt: "(2::nat) ^ k < 2 ^ 64" using k by (intro power_strict_increasing) simp_all
  have "unat (word_of_nat (2 ^ k) :: 64 word) = 2 ^ k mod 2 ^ LENGTH(64)"
    by (rule unat_of_nat)
  with lt have p: "unat (2 ^ k :: 64 word) = 2 ^ k" by simp
  then have nz: "(2 ^ k :: 64 word) \<noteq> 0" by (metis pos unat_0 less_irrefl)
  have um: "unat (mask k :: 64 word) = 2 ^ k - 1"
    using unat_minus_one [OF nz] p m by simp
  have "unat s + unat (mask k :: 64 word) < 2 ^ 64"
    using nover pos um by simp
  then have "unat (s + mask k) = unat s + unat (mask k :: 64 word)"
    by (simp add: unat_add_lem [THEN iffD1])
  with um pos have "unat (s + mask k) = unat s + 2 ^ k - 1" by simp
  moreover have "alignedSize s (2 ^ k) = (s + mask k) AND NOT (mask k)"
    using m by (simp add: alignedSize_def add_diff_eq [symmetric])
  ultimately show ?thesis by (simp add: unat_and_not_mask)
qed

lemma round_up_nat:
  fixes n b :: nat assumes "0 < b"
  shows "b dvd ((n + b - 1) div b) * b" and "n \<le> ((n + b - 1) div b) * b"
    and "((n + b - 1) div b) * b < n + b"
    and "\<And>m. b dvd m \<Longrightarrow> n \<le> m \<Longrightarrow> ((n + b - 1) div b) * b \<le> m"
proof -
  show "b dvd ((n + b - 1) div b) * b" by simp
  have d: "(n + b - 1) = ((n + b - 1) div b) * b + (n + b - 1) mod b" by simp
  have "(n + b - 1) mod b < b" using assms by simp
  with d show "n \<le> ((n + b - 1) div b) * b" by linarith
  have "((n + b - 1) div b) * b \<le> n + b - 1" by simp
  with assms show "((n + b - 1) div b) * b < n + b" by linarith
  fix m assume "b dvd m" "n \<le> m"
  then obtain q where q: "m = q * b" using dvd_div_mult_self [of b m] by metis
  from \<open>n \<le> m\<close> q assms have "n + b - 1 < Suc q * b" by simp
  then have "(n + b - 1) div b < Suc q" by (rule less_mult_imp_div_less)
  then have "(n + b - 1) div b \<le> q" by simp
  then show "((n + b - 1) div b) * b \<le> m" using q by simp
qed



lemma alignedSize_mask: "alignedSize s (2 ^ k) = (s + mask k) AND NOT (mask k)"
proof -
  have "(2 ^ k :: 64 word) - 1 = mask k" by (simp add: mask_eq_decr_exp)
  then show ?thesis by (simp add: alignedSize_def add_diff_eq [symmetric])
qed

lemma alignedSize_dvd: "65536 dvd unat (alignedSize s (64 * 1024))"
proof -
  have "(64 * 1024 :: 64 word) = 2 ^ 16" by simp
  then have "unat (alignedSize s (64 * 1024)) = (unat (s + mask 16) div 2 ^ 16) * 2 ^ 16"
    by (simp only: alignedSize_mask unat_and_not_mask)
  then show ?thesis by simp
qed

lemma Allocate_blockAligned:
  assumes "MemoryPool_Allocate self mp s = Inr (alloc, mp')" "mp_BlockSize mp = 64 * 1024"
    "blockAligned (mp_UsedBlocks mp)"
  shows "blockAligned (mp_UsedBlocks mp') \<and> mp_BlockSize mp' = 64 * 1024 \<and>
         65536 dvd unat (al_Size alloc)"
  using assms alignedSize_dvd [of s]
  by (auto simp: MemoryPool_Allocate_def Let_def blockAligned_def split: option.splits)

lemma Free_blockAligned:
  assumes "MemoryPool_Free mp allocation = Inr mp'" "blockAligned (mp_UsedBlocks mp)"
  shows "blockAligned (mp_UsedBlocks mp') \<and> mp_BlockSize mp' = mp_BlockSize mp"
  using assms
  by (auto simp: MemoryPool_Free_def blockAligned_def list_all_iff split: option.splits)
     (blast dest: in_set_takeD in_set_dropD)+

lemma pool_run_blockAligned:
  "blockAligned (mp_UsedBlocks mp) \<Longrightarrow> mp_BlockSize mp = 64 * 1024 \<Longrightarrow>
     blockAligned (mp_UsedBlocks (pool_run self mp calls))"
proof (induction calls arbitrary: mp)
  case Nil
  then show ?case by (simp add: pool_run_def)
next
  case (Cons c calls)
  have "blockAligned (mp_UsedBlocks (pool_step self mp c)) \<and>
        mp_BlockSize (pool_step self mp c) = 64 * 1024"
  proof (cases c)
    case (PoolAllocate s)
    then show ?thesis
      using Cons.prems Allocate_blockAligned [of self mp s]
      by (auto split: sum.splits)
  next
    case (PoolFree al)
    then show ?thesis
      using Cons.prems Free_blockAligned [of mp al]
      by (auto split: sum.splits)
  qed
  with Cons.IH [of "pool_step self mp c"] show ?case by (simp add: pool_run_def)
qed

text \<open>
  In every state of a pool made by \<^verbatim>\<open>createPool\<close>, after any sequence of
  \<^verbatim>\<open>Allocate\<close> and \<^verbatim>\<open>Free\<close> calls, the size of every used block is a multiple of the
  block size of 65,536 bytes.
\<close>

theorem pool_used_sizes_block_aligned:
  "blockAligned (mp_UsedBlocks (pool_run self (newPool t props sz) calls))"
  by (rule pool_run_blockAligned) (simp_all add: newPool_def blockAligned_def)


subsection \<open>First fit and split\<close>

lemma alignedSize_zero: "alignedSize 0 blockSize = 0"
  by (simp add: alignedSize_def)

lemma scanFree_find:
  "scanFree a n fs =
     (case find (\<lambda>b. a \<le> mb_Size b) fs of
        None \<Rightarrow> None
      | Some b \<Rightarrow> Some (n + length (takeWhile (\<lambda>b. \<not> a \<le> mb_Size b) fs), b))"
  by (induction fs arbitrary: n) (auto split: option.splits)

lemma find_takeWhile_nth:
  "find P fs = Some b \<Longrightarrow>
     length (takeWhile (\<lambda>x. \<not> P x) fs) < length fs \<and> fs ! length (takeWhile (\<lambda>x. \<not> P x) fs) = b"
  by (induction fs) (auto split: if_splits)

text \<open>
  Claim C5, as amended.  For a pool whose \<^verbatim>\<open>BlockSize\<close> is a power of two and a
  requested size \<open>s\<close> with \<open>s + BlockSize - 1\<close> below \<open>2^64\<close>, the aligned size is the
  least multiple of \<^verbatim>\<open>BlockSize\<close> that is at least \<open>s\<close>; \<^verbatim>\<open>Allocate\<close> takes the first
  free block, in list order, whose size is at least the aligned size; the used block is
  the head of that block; if the block is strictly larger, the remainder
  \<open>[offset + alignedSize, offset + size)\<close> replaces it in the free list, otherwise it
  is removed by moving the last free block into its place; with no such block the call
  fails with \<open>OutOfPoolMemory\<close>.
\<close>

theorem pool_Allocate_first_fit:
  assumes B: "mp_BlockSize mp = 2 ^ k" and k: "k < 64"
    and nover: "unat s + 2 ^ k - 1 < 2 ^ 64"
  shows "2 ^ k dvd unat (alignedSize s (mp_BlockSize mp)) \<and>
         unat s \<le> unat (alignedSize s (mp_BlockSize mp)) \<and>
         unat (alignedSize s (mp_BlockSize mp)) < unat s + 2 ^ k \<and>
         MemoryPool_Allocate self mp s =
           (let a = alignedSize s (mp_BlockSize mp);
                fs = mp_FreeBlocks mp;
                i = length (takeWhile (\<lambda>b. \<not> a \<le> mb_Size b) fs)
            in case find (\<lambda>b. a \<le> mb_Size b) fs of
                 None \<Rightarrow> Inl OutOfPoolMemory
               | Some block \<Rightarrow>
                   Inr (\<lparr>al_Memory = mp_Memory mp, al_Size = a, al_TypeIndex = mp_TypeIndex mp,
                         al_Properties = mp_Properties mp, al_Mapped = None, al_RefCount = 1,
                         al_Pool = Some self\<rparr>,
                        mp\<lparr>mp_FreeBlocks :=
                             (if a < mb_Size block
                              then fs[i := \<lparr>mb_Offset = mb_Offset block + a,
                                           mb_Size = mb_Size block - a,
                                           mb_InUse = False\<rparr>]
                              else if i < length fs - 1 then butlast (fs[i := last fs])
                              else butlast fs),
                           mp_UsedBlocks := mp_UsedBlocks mp @
                             [\<lparr>mb_Offset = mb_Offset block, mb_Size = a, mb_InUse = True\<rparr>]\<rparr>))"
proof -
  let ?a = "alignedSize s (mp_BlockSize mp)"
  let ?fs = "mp_FreeBlocks mp"
  let ?i = "length (takeWhile (\<lambda>b. \<not> ?a \<le> mb_Size b) ?fs)"
  have u: "unat ?a = ((unat s + 2 ^ k - 1) div 2 ^ k) * 2 ^ k"
    using alignedSize_pow2 [OF k nover] B by simp
  have pos: "(0::nat) < 2 ^ k" by simp
  have r1: "2 ^ k dvd unat ?a" using u by simp
  have r2: "unat s \<le> unat ?a" using round_up_nat(2) [OF pos, of "unat s"] u by simp
  have r3: "unat ?a < unat s + 2 ^ k" using round_up_nat(3) [OF pos, of "unat s"] u by simp
  have eq: "MemoryPool_Allocate self mp s =
           (case find (\<lambda>b. ?a \<le> mb_Size b) ?fs of
                 None \<Rightarrow> Inl OutOfPoolMemory
               | Some block \<Rightarrow>
                   Inr (\<lparr>al_Memory = mp_Memory mp, al_Size = ?a, al_TypeIndex = mp_TypeIndex mp,
                         al_Properties = mp_Properties mp, al_Mapped = None, al_RefCount = 1,
                         al_Pool = Some self\<rparr>,
                        mp\<lparr>mp_FreeBlocks :=
                             (if ?a < mb_Size block
                              then ?fs[?i := \<lparr>mb_Offset = mb_Offset block + ?a,
                                           mb_Size = mb_Size block - ?a,
                                           mb_InUse = False\<rparr>]
                              else if ?i < length ?fs - 1 then butlast (?fs[?i := last ?fs])
                              else butlast ?fs),
                           mp_UsedBlocks := mp_UsedBlocks mp @
                             [\<lparr>mb_Offset = mb_Offset block, mb_Size = ?a, mb_InUse = True\<rparr>]\<rparr>))"
  proof (cases "find (\<lambda>b. ?a \<le> mb_Size b) ?fs")
    case None
    then show ?thesis by (simp add: MemoryPool_Allocate_def Let_def scanFree_find)
  next
    case (Some block)
    from find_takeWhile_nth [OF Some] have i: "?i < length ?fs" and b: "?fs ! ?i = block"
      by auto
    from i have ne: "?fs \<noteq> []" by auto
    have sp: "splitFree ?fs ?i block ?a =
                (if ?a < mb_Size block
                 then ?fs[?i := \<lparr>mb_Offset = mb_Offset block + ?a,
                                 mb_Size = mb_Size block - ?a, mb_InUse = False\<rparr>]
                 else if ?i < length ?fs - 1 then butlast (?fs[?i := last ?fs])
                 else butlast ?fs)"
    proof (cases "?a < mb_Size block")
      case True
      with splitFree_split [OF i] b show ?thesis by simp
    next
      case False
      with splitFree_exact [OF i] b ne show ?thesis
        by (simp add: butlast_conv_take last_conv_nth)
    qed
    show ?thesis
      using Some by (simp add: MemoryPool_Allocate_def Let_def scanFree_find sp)
  qed
  show ?thesis
    using r1 r2 r3 eq by (simp add: Let_def)
qed

theorem pool_Allocate_first_fit_witness:
  "mp_BlockSize examplePool = 2 ^ 16 \<and> (16::nat) < 64 \<and>
   unat (10000 :: DeviceSize) + 2 ^ 16 - 1 < 2 ^ 64 \<and>
   alignedSize 10000 (mp_BlockSize examplePool) = 65536 \<and>
   MemoryPool_Allocate 0 examplePool 10000 = Inr (exampleAllocation 65536, afterFirstAllocate)"
proof -
  have B: "mp_BlockSize examplePool = 2 ^ 16" by (simp add: example_defs)
  have k: "(16::nat) < 64" by simp
  have n: "unat (10000 :: DeviceSize) + 2 ^ 16 - 1 < 2 ^ 64" by simp
  from pool_Allocate_first_fit [OF B k n, of 0] B k n show ?thesis
    by (simp add: example_defs alignedSize_def)
qed


text \<open>
  Claim C5 as stated, for every size above 0, fails where \<open>size + BlockSize - 1\<close> wraps
  around: a request of \<open>2^64 - 1\<close> bytes gets the aligned size 0, which is below the
  request, and the example pool serves it with a used block of size 0.
\<close>

theorem pool_Allocate_wraps_huge_size:
  "(0 :: DeviceSize) < 18446744073709551615 \<and>
   alignedSize 18446744073709551615 (mp_BlockSize examplePool) = 0 \<and>
   \<not> (18446744073709551615 \<le> alignedSize 18446744073709551615 (mp_BlockSize examplePool)) \<and>
   MemoryPool_Allocate 0 examplePool 18446744073709551615 =
     Inr (exampleAllocation 0,
          examplePool\<lparr>mp_UsedBlocks := [\<lparr>mb_Offset = 0, mb_Size = 0, mb_InUse = True\<rparr>]\<rparr>)"
  by (simp add: example_defs pool_defs)

subsection \<open>A request of size zero\<close>

text \<open>
  Claim C6, as amended.  \<^verbatim>\<open>Allocate(0)\<close> is not rejected.  Its aligned size is 0 for
  every block size, so the first free block always fits: the call succeeds with an
  allocation of size 0 and appends a used block of size 0 at the offset of the first free
  block, which stays in the free list if its size is not 0 and is removed otherwise.
  The call fails only on an empty free list, with \<open>OutOfPoolMemory\<close>.
\<close>

theorem pool_Allocate_zero:
  "MemoryPool_Allocate self mp 0 =
     (case mp_FreeBlocks mp of
        [] \<Rightarrow> Inl OutOfPoolMemory
      | b # bs \<Rightarrow>
          Inr (\<lparr>al_Memory = mp_Memory mp, al_Size = 0, al_TypeIndex = mp_TypeIndex mp,
                al_Properties = mp_Properties mp, al_Mapped = None, al_RefCount = 1,
                al_Pool = Some self\<rparr>,
               mp\<lparr>mp_FreeBlocks :=
                    (if mb_Size b \<noteq> 0
                     then \<lparr>mb_Offset = mb_Offset b, mb_Size = mb_Size b, mb_InUse = False\<rparr> # bs
                     else if bs = [] then [] else last bs # butlast bs),
                  mp_UsedBlocks := mp_UsedBlocks mp @
                    [\<lparr>mb_Offset = mb_Offset b, mb_Size = 0, mb_InUse = True\<rparr>]\<rparr>))"
proof (cases "mp_FreeBlocks mp")
  case Nil
  then show ?thesis by (simp add: MemoryPool_Allocate_def alignedSize_zero)
next
  case (Cons b bs)
  have sp: "splitFree (b # bs) 0 b 0 =
          (if mb_Size b \<noteq> 0
           then \<lparr>mb_Offset = mb_Offset b, mb_Size = mb_Size b, mb_InUse = False\<rparr> # bs
           else if bs = [] then [] else last bs # butlast bs)"
    by (cases bs) (auto simp: splitFree_def Let_def word_gt_0 last_conv_nth butlast_conv_take)
  show ?thesis
    using Cons by (simp add: MemoryPool_Allocate_def alignedSize_zero sp)
qed

text \<open>
  Claim C6 as stated fails on the example pool: the call returns an allocation, not an
  error, and the pool has one more used block.
\<close>

theorem zero_size_request_is_served:
  "MemoryPool_Allocate 0 examplePool 0 =
     Inr (exampleAllocation 0,
          examplePool\<lparr>mp_UsedBlocks := [\<lparr>mb_Offset = 0, mb_Size = 0, mb_InUse = True\<rparr>]\<rparr>) \<and>
   \<not> isl (MemoryPool_Allocate 0 examplePool 0) \<and>
   examplePool\<lparr>mp_UsedBlocks := [\<lparr>mb_Offset = 0, mb_Size = 0, mb_InUse = True\<rparr>]\<rparr> \<noteq> examplePool"
  by (simp add: example_defs pool_defs)

section \<open>Properties of the allocator\<close>

subsection \<open>Memory type resolution\<close>

lemmas usage_defs =
  MemoryUsageUnknown_def MemoryUsageGPUOnly_def MemoryUsageCPUOnly_def MemoryUsageCPUToGPU_def
  MemoryUsageGPUToCPU_def MemoryUsageCPUCopy_def MemoryUsageGPULazilyAllocated_def

lemma usageFlags_table: "usageFlags createInfo = (requiredOf createInfo, preferredOf createInfo)"
  by (simp add: usageFlags_def requiredOf_def preferredOf_def usageTable_def Let_def usage_defs)

lemma typeEnabled_bit: "typeEnabled bits i \<longleftrightarrow> bit bits i"
  by (simp add: typeEnabled_def push_bit_eq_mult and_exp_eq_0_iff_not_bit)

lemma scanTypes_Least:
  "scanTypes ok n i =
     (if \<exists>j. i \<le> j \<and> j < n \<and> ok j then Some (LEAST j. i \<le> j \<and> j < n \<and> ok j) else None)"
proof (induction ok n i rule: scanTypes.induct)
  case (1 ok n i)
  show ?case
  proof (cases "i < n")
    case False
    then show ?thesis by (subst scanTypes.simps) auto
  next
    case True
    show ?thesis
    proof (cases "ok i")
      case ok: True
      have "(LEAST j. i \<le> j \<and> j < n \<and> ok j) = i"
        using True ok by (intro Least_equality) auto
      moreover have "\<exists>j. i \<le> j \<and> j < n \<and> ok j" using True ok by auto
      ultimately show ?thesis using True ok by (subst scanTypes.simps) simp
    next
      case nok: False
      have eq: "\<And>j. (i \<le> j \<and> j < n \<and> ok j) = (Suc i \<le> j \<and> j < n \<and> ok j)"
        using nok by (metis Suc_leI Suc_leD le_neq_implies_less)
      have "scanTypes ok n i = scanTypes ok n (Suc i)"
        using True nok by (subst scanTypes.simps) simp
      also have "\<dots> = (if \<exists>j. Suc i \<le> j \<and> j < n \<and> ok j
                        then Some (LEAST j. Suc i \<le> j \<and> j < n \<and> ok j) else None)"
        using "1.IH" [OF True nok] .
      finally show ?thesis unfolding eq .
    qed
  qed
qed

lemma scanTypes_0:
  "scanTypes ok n 0 = (if \<exists>j. j < n \<and> ok j then Some (LEAST j. j < n \<and> ok j) else None)"
  by (simp add: scanTypes_Least)

text \<open>
  Claim C7.  With the required and preferred flags obtained from the usage table and the
  explicit flags, \<^verbatim>\<open>findMemoryType\<close> returns the smallest index of a memory type of
  the device that is enabled in \<^verbatim>\<open>MemoryTypeBits\<close> and whose flags contain both the
  required and the preferred flags; if there is none, the smallest such index whose
  flags contain the required flags; if there is none either, the error
  \<open>NoSuitableMemoryType\<close>.
\<close>

theorem findMemoryType_two_passes:
  "findMemoryType memProps requirements createInfo =
     (let bits = mr_MemoryTypeBits requirements;
          both = (\<lambda>i. suitable memProps bits (requiredOf createInfo) i \<and>
                       suitable memProps bits (preferredOf createInfo) i);
          required = (\<lambda>i. suitable memProps bits (requiredOf createInfo) i)
      in if \<exists>i. both i then Inr (of_nat (LEAST i. both i))
         else if \<exists>i. required i then Inr (of_nat (LEAST i. required i))
         else Inl NoSuitableMemoryType)"
proof -
  let ?n = "unat (MemoryTypeCount memProps)"
  let ?bits = "mr_MemoryTypeBits requirements"
  let ?r = "requiredOf createInfo" and ?p = "preferredOf createInfo"
  have one: "(\<lambda>j. j < ?n \<and> firstPass memProps ?bits ?r ?p j) =
             (\<lambda>i. suitable memProps ?bits ?r i \<and> suitable memProps ?bits ?p i)"
    by (auto simp: firstPass_def suitable_def typeEnabled_bit)
  have two: "(\<lambda>j. j < ?n \<and> secondPass memProps ?bits ?r j) = (\<lambda>i. suitable memProps ?bits ?r i)"
    by (auto simp: secondPass_def suitable_def typeEnabled_bit)
  have s1: "scanTypes (firstPass memProps ?bits ?r ?p) ?n 0 =
      (if \<exists>i. suitable memProps ?bits ?r i \<and> suitable memProps ?bits ?p i
       then Some (LEAST i. suitable memProps ?bits ?r i \<and> suitable memProps ?bits ?p i)
       else None)"
    using scanTypes_0 [of "firstPass memProps ?bits ?r ?p" ?n] unfolding one .
  have s2: "scanTypes (secondPass memProps ?bits ?r) ?n 0 =
      (if \<exists>i. suitable memProps ?bits ?r i
       then Some (LEAST i. suitable memProps ?bits ?r i) else None)"
    using scanTypes_0 [of "secondPass memProps ?bits ?r" ?n] unfolding two .
  show ?thesis
  proof (cases "\<exists>i. suitable memProps ?bits ?r i \<and> suitable memProps ?bits ?p i")
    case True
    then show ?thesis
      by (simp add: findMemoryType_def usageFlags_table s1 Let_def)
  next
    case False
    show ?thesis
    proof (cases "\<exists>i. suitable memProps ?bits ?r i")
      case True
      with False show ?thesis
        by (auto simp: findMemoryType_def usageFlags_table s1 s2 Let_def)
    next
      case F2: False
      with False show ?thesis
        by (auto simp: findMemoryType_def usageFlags_table s1 s2 Let_def)
    qed
  qed
qed

subsection \<open>The allocation table and the total\<close>

lemma update_fresh: "k \<notin> fst ` set al \<Longrightarrow> AList.update k v al = al @ [(k, v)]"
  by (induction al) auto

lemma limit_check:
  assumes "length (al :: (nat \<times> nat) list) \<le> 4096"
  shows "((of_nat (length al) :: 32 word) \<ge> 4096) \<longleftrightarrow> 4096 \<le> length al"
proof -
  have "unat (of_nat (length al) :: 32 word) = length al"
    using assms by (simp add: unat_of_nat)
  then show ?thesis by (simp add: word_le_nat_alt)
qed

lemma sum_sizes_fresh:
  assumes "\<forall>e \<in> set al. snd e \<noteq> a"
  shows "sum_list (map (\<lambda>(key :: nat, p). al_Size ((h(a := x)) p)) al) =
         sum_list (map (\<lambda>(key, p). al_Size (h p)) al)"
  using assms by (induction al) auto

lemma register_tracked:
  assumes t: "tracked ma st" and n: "length (ma_allocations ma) < 4096"
    and same: "st_allocs st' = st_allocs st" "st_nextAlloc st' = st_nextAlloc st"
    and r: "register ma st' alloc = (res, ma', st'')"
  shows "tracked ma' st''"
proof -
  let ?a = "st_nextAlloc st"
  let ?al = "ma_allocations ma"
  from t have fresh: "?a \<notin> fst ` set ?al" by (auto simp: tracked_def)
  from r same have ma': "ma' = ma\<lparr>ma_allocations := ?al @ [(?a, ?a)],
          ma_totalAllocated := ma_totalAllocated ma + al_Size alloc\<rparr>"
    and st'': "st'' = st'\<lparr>st_allocs := (st_allocs st)(?a := alloc), st_nextAlloc := Suc ?a\<rparr>"
    by (auto simp: register_def Let_def update_fresh [OF fresh])
  have nn: "\<forall>e \<in> set ?al. snd e \<noteq> ?a"
    using t by (auto simp: tracked_def)
  have "sum_list (liveSizes ma' st'') = sum_list (liveSizes ma st) + al_Size alloc"
    using sum_sizes_fresh [OF nn, of "st_allocs st" alloc]
    by (simp add: liveSizes_def ma' st'')
  with t n fresh show ?thesis
    by (auto simp: tracked_def ma' st'')
qed

lemma poolAllocate_store:
  "poolAllocate st p s = Inr (alloc, st') \<Longrightarrow>
     st_allocs st' = st_allocs st \<and> st_nextAlloc st' = st_nextAlloc st"
  by (auto simp: poolAllocate_def split: sum.splits)

lemma tryPools_store:
  "tryPools st t s ps = Some (alloc, st') \<Longrightarrow>
     st_allocs st' = st_allocs st \<and> st_nextAlloc st' = st_nextAlloc st"
proof (induction ps)
  case Nil
  then show ?case by simp
next
  case (Cons p ps)
  then show ?case
    by (auto split: if_splits sum.splits dest: poolAllocate_store)
qed

lemma tracked_store_cong:
  "tracked ma st \<Longrightarrow> st_allocs st' = st_allocs st \<Longrightarrow> st_nextAlloc st' = st_nextAlloc st \<Longrightarrow>
     tracked ma st'"
  by (simp add: tracked_def liveSizes_def)

lemma tracked_pools_cong:
  "tracked ma st \<Longrightarrow> tracked (ma\<lparr>ma_pools := ps\<rparr>) st"
  by (simp add: tracked_def liveSizes_def)

lemma Allocate_tracked:
  assumes t: "tracked ma st"
    and r: "MemoryAllocator_Allocate ma st requirements createInfo = (res, ma', st')"
  shows "tracked ma' st'"
proof (cases "(of_nat (length (ma_allocations ma)) :: 32 word) \<ge> ma_maxAllocations ma")
  case True
  with r t show ?thesis by (simp add: MemoryAllocator_Allocate_def)
next
  case False
  with t have n: "length (ma_allocations ma) < 4096"
    using limit_check [of "ma_allocations ma"] by (auto simp: tracked_def)
  let ?explicit = "case ci_Pool createInfo of None \<Rightarrow> None
              | Some p \<Rightarrow>
                  (case poolAllocate st p (mr_Size requirements) of
                     Inr r \<Rightarrow> Some r | Inl e \<Rightarrow> None)"
  show ?thesis
  proof (cases ?explicit)
    case (Some pr)
    obtain alloc st1 where pr: "pr = (alloc, st1)" by (cases pr)
    from Some pr have "st_allocs st1 = st_allocs st \<and> st_nextAlloc st1 = st_nextAlloc st"
      by (auto split: option.splits sum.splits dest: poolAllocate_store)
    moreover from r False Some pr have "register ma st1 alloc = (res, ma', st')"
      by (simp add: MemoryAllocator_Allocate_def)
    ultimately show ?thesis using register_tracked [OF t n] by blast
  next
    case None
    show ?thesis
    proof (cases "findMemoryType (ma_device ma) requirements createInfo")
      case (Inl e)
      with r False None t show ?thesis by (simp add: MemoryAllocator_Allocate_def)
    next
      case (Inr memoryType)
      show ?thesis
      proof (cases "tryPools st memoryType (mr_Size requirements) (ma_pools ma)")
        case (Some pr)
        obtain alloc st1 where pr: "pr = (alloc, st1)" by (cases pr)
        from Some pr have "st_allocs st1 = st_allocs st \<and> st_nextAlloc st1 = st_nextAlloc st"
          by (auto dest: tryPools_store)
        moreover from r False None Inr Some pr have "register ma st1 alloc = (res, ma', st')"
          by (simp add: MemoryAllocator_Allocate_def)
        ultimately show ?thesis using register_tracked [OF t n] by blast
      next
        case N2: None
        show ?thesis
        proof (cases "mr_Size requirements > 64 * 1024 * 1024")
          case True
          with r False None Inr N2
          have "register ma st (allocateDirect (ma_device ma) (mr_Size requirements) memoryType)
                  = (res, ma', st')"
            by (simp add: MemoryAllocator_Allocate_def)
          then show ?thesis using register_tracked [OF t n] by blast
        next
          case small: False
          let ?p = "st_nextPool st"
          let ?st1 = "st\<lparr>st_pools := (st_pools st)
                                       (?p := createPool (ma_device ma) memoryType
                                               (256 * 1024 * 1024)),
                                    st_nextPool := Suc ?p\<rparr>"
          let ?ma1 = "ma\<lparr>ma_pools := ma_pools ma @ [?p]\<rparr>"
          have t1: "tracked ?ma1 st" using t by (rule tracked_pools_cong)
          have n1: "length (ma_allocations ?ma1) < 4096" using n by simp
          show ?thesis
          proof (cases "poolAllocate ?st1 ?p (mr_Size requirements)")
            case (Inl e)
            with r False None Inr N2 small have "ma' = ?ma1" "st' = ?st1"
              by (simp_all add: MemoryAllocator_Allocate_def Let_def)
            with t1 show ?thesis by (simp add: tracked_def liveSizes_def)
          next
            case I2: (Inr pr)
            obtain alloc st2 where pr: "pr = (alloc, st2)" by (cases pr)
            from I2 pr have "st_allocs st2 = st_allocs st \<and> st_nextAlloc st2 = st_nextAlloc st"
              by (auto dest: poolAllocate_store)
            moreover from r False None Inr N2 small I2 pr
            have "register ?ma1 st2 alloc = (res, ma', st')"
              by (simp add: MemoryAllocator_Allocate_def Let_def)
            ultimately show ?thesis using register_tracked [OF t1 n1] by blast
          qed
        qed
      qed
    qed
  qed
qed

lemma sum_delete:
  fixes f :: "nat \<times> nat \<Rightarrow> 64 word"
  assumes "distinct (map fst al)" "(k, v) \<in> set al"
  shows "sum_list (map f (AList.delete k al)) + f (k, v) = sum_list (map f al)"
  using assms
proof (induction al)
  case Nil
  then show ?case by simp
next
  case (Cons e al)
  show ?case
  proof (cases "fst e = k")
    case True
    with Cons.prems have "e = (k, v)" by (cases e) (auto simp: image_iff)
    moreover from True Cons.prems have "k \<notin> fst ` set al" by auto
    ultimately show ?thesis by (simp add: AList.delete_id)
  next
    case False
    with Cons.prems have "(k, v) \<in> set al" by auto
    with Cons.IH Cons.prems have "sum_list (map f (AList.delete k al)) + f (k, v) = sum_list (map f al)"
      by simp
    with False show ?thesis by (cases e) (simp add: add.assoc)
  qed
qed

lemma Unmap_store:
  "al_Size (st_allocs (Unmap st a) p) = al_Size (st_allocs st p) \<and>
   al_Pool (st_allocs (Unmap st a) p) = al_Pool (st_allocs st p) \<and>
   st_nextAlloc (Unmap st a) = st_nextAlloc st \<and> st_pools (Unmap st a) = st_pools st"
  by (simp add: Unmap_def)

lemma Free_tracked:
  assumes t: "tracked ma st"
    and r: "freeAllocationUnsafe ma st allocation = (res, ma', st')"
  shows "tracked ma' st'"
proof (cases allocation)
  case None
  with r t show ?thesis by (simp add: freeAllocationUnsafe_def)
next
  case (Some a)
  define st1 where "st1 = (if al_Mapped (st_allocs st a) \<noteq> None then Unmap st a else st)"
  define f where "f = (\<lambda>(key :: nat, p). al_Size (st_allocs st1 p))"
  let ?al = "ma_allocations ma"
  have sz: "\<And>p. al_Size (st_allocs st1 p) = al_Size (st_allocs st p)"
    by (simp add: st1_def Unmap_store)
  have nx: "st_nextAlloc st1 = st_nextAlloc st" by (simp add: st1_def Unmap_store)
  have t1: "tracked ma st1"
    using t sz nx by (simp add: tracked_def liveSizes_def)
  show ?thesis
  proof (cases "map_of ?al a")
    case None
    with r Some have "ma' = ma" "st' = st1"
      by (simp_all add: freeAllocationUnsafe_def Let_def st1_def)
    with t1 show ?thesis by simp
  next
    case S: (Some p)
    define ma1 where "ma1 = ma\<lparr>ma_allocations := AList.delete a ?al,
                            ma_totalAllocated := ma_totalAllocated ma - al_Size (st_allocs st1 a)\<rparr>"
    from S have mem: "(a, p) \<in> set ?al" by (rule map_of_SomeD)
    with t have pa: "p = a" by (auto simp: tracked_def)
    from t1 have d: "distinct (map fst ?al)" by (simp add: tracked_def)
    have "sum_list (map f (AList.delete a ?al)) + f (a, p) = sum_list (map f ?al)"
      using d mem by (rule sum_delete)
    then have e1: "sum_list (map f (AList.delete a ?al)) + al_Size (st_allocs st1 a) = sum_list (map f ?al)"
      using pa by (simp add: f_def)
    have e2: "ma_totalAllocated ma = sum_list (map f ?al)"
      using t1 by (simp add: tracked_def liveSizes_def f_def)
    have tot: "ma_totalAllocated ma1 = sum_list (liveSizes ma1 st1)"
      by (simp add: ma1_def liveSizes_def f_def [symmetric] e2 e1 [symmetric])
    have len: "length (AList.delete a ?al) \<le> 4096"
      using t AList.length_delete_le [of a ?al] by (simp add: tracked_def)
    have sub: "set (AList.delete a ?al) \<subseteq> set ?al"
      by (auto simp: AList.delete_eq)
    have t2: "tracked ma1 st1"
      unfolding tracked_def
    proof (intro conjI)
      show "distinct (map fst (ma_allocations ma1))"
        using d by (simp add: ma1_def AList.distinct_delete)
      show "\<forall>e\<in>set (ma_allocations ma1). snd e = fst e \<and> fst e < st_nextAlloc st1"
        using t1 sub by (auto simp: tracked_def ma1_def)
      show "ma_totalAllocated ma1 = sum_list (liveSizes ma1 st1)" by (rule tot)
      show "length (ma_allocations ma1) \<le> 4096" using len by (simp add: ma1_def)
      show "ma_maxAllocations ma1 = 4096" using t by (simp add: tracked_def ma1_def)
    qed
    from r Some S have "ma' = ma1"
      by (auto simp: freeAllocationUnsafe_def Let_def ma1_def st1_def split: option.splits sum.splits)
    moreover from r Some S have "st_allocs st' = st_allocs st1 \<and> st_nextAlloc st' = st_nextAlloc st1"
      by (auto simp: freeAllocationUnsafe_def Let_def st1_def split: option.splits sum.splits)
    ultimately show ?thesis using t2 tracked_store_cong by blast
  qed
qed

lemma step_tracked: "tracked (fst s) (snd s) \<Longrightarrow> tracked (fst (step s c)) (snd (step s c))"
proof (cases s; cases c)
  fix ma st requirements createInfo
  assume "tracked (fst s) (snd s)" "s = (ma, st)" "c = Allocate requirements createInfo"
  then show ?thesis
    using Allocate_tracked [of ma st requirements createInfo]
    by (cases "MemoryAllocator_Allocate ma st requirements createInfo") auto
next
  fix ma st allocation
  assume "tracked (fst s) (snd s)" "s = (ma, st)" "c = Free allocation"
  then show ?thesis
    using Free_tracked [of ma st allocation]
    by (cases "freeAllocationUnsafe ma st allocation") (auto simp: MemoryAllocator_Free_def)
qed

lemma run_tracked: "tracked (fst s) (snd s) \<Longrightarrow> tracked (fst (run s calls)) (snd (run s calls))"
proof (induction calls arbitrary: s)
  case Nil
  then show ?case by (simp add: run_def)
next
  case (Cons c calls)
  from Cons.IH [OF step_tracked [OF Cons.prems]] show ?case by (simp add: run_def)
qed

lemma New_tracked: "tracked (NewMemoryAllocator device) st"
  by (simp add: tracked_def NewMemoryAllocator_def liveSizes_def)

lemma unat_sum_list:
  "unat (sum_list (ws :: 64 word list)) = sum_list (map unat ws) mod 2 ^ 64"
proof (induction ws)
  case Nil
  then show ?case by simp
next
  case (Cons w ws)
  have "unat (w + sum_list ws) = (unat w + unat (sum_list ws)) mod 2 ^ 64"
    by (simp add: unat_word_ariths)
  also have "\<dots> = (unat w + sum_list (map unat ws) mod 2 ^ 64) mod 2 ^ 64"
    using Cons.IH by simp
  also have "\<dots> = (unat w + sum_list (map unat ws)) mod 2 ^ 64"
    by (rule mod_add_right_eq)
  finally show ?case by simp
qed

text \<open>
  Claim C3, as amended.  After every sequence of \<^verbatim>\<open>Allocate\<close> and \<^verbatim>\<open>Free\<close> calls
  on a new allocator (whatever each call returns), \<^verbatim>\<open>totalAllocated\<close> is the sum of the
  \<^verbatim>\<open>Size\<close> fields of the entries of the table modulo \<open>2^64\<close>, the sum the source
  keeps in \<^verbatim>\<open>DeviceSize\<close>; it is that sum exactly whenever the sum is below \<open>2^64\<close>;
  and the number of entries is at most \<^verbatim>\<open>maxAllocations\<close>.
\<close>

theorem allocator_total_and_cap:
  "ma_totalAllocated (fst (run (NewMemoryAllocator device, st) calls)) =
     sum_list (liveSizes (fst (run (NewMemoryAllocator device, st) calls))
                         (snd (run (NewMemoryAllocator device, st) calls))) \<and>
   unat (ma_totalAllocated (fst (run (NewMemoryAllocator device, st) calls))) =
     sum_list (map unat (liveSizes (fst (run (NewMemoryAllocator device, st) calls))
                                   (snd (run (NewMemoryAllocator device, st) calls)))) mod 2 ^ 64 \<and>
   (sum_list (map unat (liveSizes (fst (run (NewMemoryAllocator device, st) calls))
                                  (snd (run (NewMemoryAllocator device, st) calls)))) < 2 ^ 64 \<longrightarrow>
    unat (ma_totalAllocated (fst (run (NewMemoryAllocator device, st) calls))) =
      sum_list (map unat (liveSizes (fst (run (NewMemoryAllocator device, st) calls))
                                    (snd (run (NewMemoryAllocator device, st) calls))))) \<and>
   length (ma_allocations (fst (run (NewMemoryAllocator device, st) calls))) \<le>
     unat (ma_maxAllocations (fst (run (NewMemoryAllocator device, st) calls)))"
proof -
  let ?s = "run (NewMemoryAllocator device, st) calls"
  have "tracked (fst (NewMemoryAllocator device, st)) (snd (NewMemoryAllocator device, st))"
    by (simp add: New_tracked)
  then have t: "tracked (fst ?s) (snd ?s)" by (rule run_tracked)
  then have 1: "ma_totalAllocated (fst ?s) = sum_list (liveSizes (fst ?s) (snd ?s))"
    and 3: "length (ma_allocations (fst ?s)) \<le> unat (ma_maxAllocations (fst ?s))"
    by (simp_all add: tracked_def)
  have 2: "unat (ma_totalAllocated (fst ?s)) =
             sum_list (map unat (liveSizes (fst ?s) (snd ?s))) mod 2 ^ 64"
    by (simp only: 1 unat_sum_list)
  have 4: "sum_list (map unat (liveSizes (fst ?s) (snd ?s))) < 2 ^ 64 \<longrightarrow>
             unat (ma_totalAllocated (fst ?s)) = sum_list (map unat (liveSizes (fst ?s) (snd ?s)))"
    using 2 by (simp only: mod_less) simp
  from 1 2 3 4 show ?thesis by blast
qed

theorem allocator_total_and_cap_witness:
  "sum_list (map unat (liveSizes (fst afterTwoDirect) (snd afterTwoDirect))) < 2 ^ 64 \<and>
   sum_list (map unat (liveSizes (fst afterTwoDirect) (snd afterTwoDirect))) = 268435456 \<and>
   unat (ma_totalAllocated (fst afterTwoDirect)) = 268435456 \<and>
   length (ma_allocations (fst afterTwoDirect)) \<le> 4096"
proof -
  have ls: "liveSizes (fst afterTwoDirect) (snd afterTwoDirect) = [134217728, 134217728]"
    unfolding afterTwoDirect_def by code_simp
  have m: "ma_maxAllocations (fst afterTwoDirect) = 4096"
    unfolding afterTwoDirect_def by code_simp
  from allocator_total_and_cap
         [of exampleDevice exampleStore "[Allocate directRequest gpuOnly, Allocate directRequest gpuOnly]"]
       ls m
  show ?thesis by (simp add: afterTwoDirect_def [symmetric])
qed

text \<open>
  Claim C3 as stated, with the sum of the sizes as a number, fails where the sum reaches
  \<open>2^64\<close>: two requests of \<open>2^63\<close> bytes are each served directly, the table holds
  both allocations, their sizes add up to \<open>2^64\<close>, and \<^verbatim>\<open>totalAllocated\<close> has wrapped
  around to 0.
\<close>

theorem allocator_total_wraps_around:
  "fst (MemoryAllocator_Allocate (NewMemoryAllocator exampleDevice) exampleStore hugeRequest gpuOnly) = Inr 0 \<and>
   fst (MemoryAllocator_Allocate
          (fst (run (NewMemoryAllocator exampleDevice, exampleStore) [Allocate hugeRequest gpuOnly]))
          (snd (run (NewMemoryAllocator exampleDevice, exampleStore) [Allocate hugeRequest gpuOnly]))
          hugeRequest gpuOnly) = Inr 1 \<and>
   ma_allocations (fst afterTwoHuge) = [(0, 0), (1, 1)] \<and>
   liveSizes (fst afterTwoHuge) (snd afterTwoHuge) =
     [9223372036854775808, 9223372036854775808] \<and>
   sum_list (map unat (liveSizes (fst afterTwoHuge) (snd afterTwoHuge))) = 18446744073709551616 \<and>
   ma_totalAllocated (fst afterTwoHuge) = 0 \<and>
   unat (ma_totalAllocated (fst afterTwoHuge)) \<noteq>
     sum_list (map unat (liveSizes (fst afterTwoHuge) (snd afterTwoHuge)))"
proof -
  have r1: "fst (MemoryAllocator_Allocate (NewMemoryAllocator exampleDevice) exampleStore
                   hugeRequest gpuOnly) = Inr 0"
    by code_simp
  have r2: "fst (MemoryAllocator_Allocate
          (fst (run (NewMemoryAllocator exampleDevice, exampleStore) [Allocate hugeRequest gpuOnly]))
          (snd (run (NewMemoryAllocator exampleDevice, exampleStore) [Allocate hugeRequest gpuOnly]))
          hugeRequest gpuOnly) = Inr 1"
    by code_simp
  have al: "ma_allocations (fst afterTwoHuge) = [(0, 0), (1, 1)]"
    unfolding afterTwoHuge_def by code_simp
  have ls: "liveSizes (fst afterTwoHuge) (snd afterTwoHuge) =
              [9223372036854775808, 9223372036854775808]"
    unfolding afterTwoHuge_def by code_simp
  have t: "ma_totalAllocated (fst afterTwoHuge) = 0"
    unfolding afterTwoHuge_def by code_simp
  from r1 r2 al ls t show ?thesis by simp
qed


subsection \<open>The cap on live allocations\<close>

lemmas allocator_defs =
  run_def MemoryAllocator_Allocate_def MemoryAllocator_Free_def freeAllocationUnsafe_def
  Unmap_def register_def poolAllocate_def createPool_def allocateDirect_def
  NewMemoryAllocator_def findMemoryType_def usageFlags_def firstPass_def secondPass_def
  typeEnabled_def scanTypes.simps usage_defs

lemmas scenario_defs =
  exampleDevice_def exampleStore_def directRequest_def smallRequest_def gpuOnly_def
  afterThreeCalls_def

lemma find_example: "findMemoryType exampleDevice directRequest gpuOnly = Inr 0"
  by (simp add: allocator_defs scenario_defs MemoryPropertyDeviceLocalBit_def)

lemma direct_step:
  assumes t: "tracked ma st" and p: "ma_pools ma = []" and d: "ma_device ma = exampleDevice"
    and n: "length (ma_allocations ma) < 4096"
  shows "tracked (fst (step (ma, st) (Allocate directRequest gpuOnly)))
                 (snd (step (ma, st) (Allocate directRequest gpuOnly))) \<and>
         ma_pools (fst (step (ma, st) (Allocate directRequest gpuOnly))) = [] \<and>
         ma_device (fst (step (ma, st) (Allocate directRequest gpuOnly))) = exampleDevice \<and>
         length (ma_allocations (fst (step (ma, st) (Allocate directRequest gpuOnly)))) =
           Suc (length (ma_allocations ma))"
proof -
  from t have fresh: "st_nextAlloc st \<notin> fst ` set (ma_allocations ma)"
    by (auto simp: tracked_def)
  from t n have lim: "\<not> (of_nat (length (ma_allocations ma)) :: 32 word) \<ge> ma_maxAllocations ma"
    using limit_check [of "ma_allocations ma"] by (simp add: tracked_def)
  have big: "mr_Size directRequest > 64 * 1024 * 1024"
    by (simp add: directRequest_def word_less_nat_alt)
  have np: "ci_Pool gpuOnly = None" by (simp add: gpuOnly_def)
  have A: "MemoryAllocator_Allocate ma st directRequest gpuOnly =
          register ma st (allocateDirect exampleDevice (mr_Size directRequest) 0)"
    using lim big by (simp add: MemoryAllocator_Allocate_def np d find_example p)
  obtain res ma' st' where r: "MemoryAllocator_Allocate ma st directRequest gpuOnly = (res, ma', st')"
    by (cases "MemoryAllocator_Allocate ma st directRequest gpuOnly") auto
  from Allocate_tracked [OF t r] have t': "tracked ma' st'" .
  from r A have "ma_pools ma' = ma_pools ma" "ma_device ma' = ma_device ma"
    "ma_allocations ma' = ma_allocations ma @ [(st_nextAlloc st, st_nextAlloc st)]"
    by (auto simp: register_def Let_def update_fresh [OF fresh])
  with t' r p d show ?thesis by simp
qed

lemma run_direct:
  "tracked ma st \<Longrightarrow> ma_pools ma = [] \<Longrightarrow> ma_device ma = exampleDevice \<Longrightarrow>
   length (ma_allocations ma) + n \<le> 4096 \<Longrightarrow>
   length (ma_allocations (fst (run (ma, st) (replicate n (Allocate directRequest gpuOnly))))) =
     length (ma_allocations ma) + n"
proof (induction n arbitrary: ma st)
  case 0
  then show ?case by (simp add: run_def)
next
  case (Suc n)
  let ?s = "step (ma, st) (Allocate directRequest gpuOnly)"
  from Suc.prems have "length (ma_allocations ma) < 4096" by simp
  from direct_step [OF Suc.prems(1-3) this]
  have t: "tracked (fst ?s) (snd ?s)" and p: "ma_pools (fst ?s) = []"
    and d: "ma_device (fst ?s) = exampleDevice"
    and l: "length (ma_allocations (fst ?s)) = Suc (length (ma_allocations ma))"
    by auto
  from l Suc.prems(4) have "length (ma_allocations (fst ?s)) + n \<le> 4096" by simp
  from Suc.IH [OF t p d this] l
  have "length (ma_allocations (fst (run (fst ?s, snd ?s) (replicate n (Allocate directRequest gpuOnly))))) =
          Suc (length (ma_allocations ma)) + n" by simp
  then show ?case by (simp add: run_def)
qed

text \<open>
  Claim C8.  In every state reached from a new allocator in which the table holds at
  least \<^verbatim>\<open>maxAllocations\<close> entries, \<^verbatim>\<open>Allocate\<close> fails with \<open>TooManyAllocations\<close>
  for every request, and allocator and store are unchanged; \<^verbatim>\<open>maxAllocations\<close> is 4096.
\<close>

theorem allocator_cap_enforced:
  assumes "unat (ma_maxAllocations (fst (run (NewMemoryAllocator device, st) calls))) \<le>
             length (ma_allocations (fst (run (NewMemoryAllocator device, st) calls)))"
  shows "MemoryAllocator_Allocate (fst (run (NewMemoryAllocator device, st) calls))
             (snd (run (NewMemoryAllocator device, st) calls)) requirements createInfo =
           (Inl TooManyAllocations, fst (run (NewMemoryAllocator device, st) calls),
              snd (run (NewMemoryAllocator device, st) calls)) \<and>
         ma_maxAllocations (fst (run (NewMemoryAllocator device, st) calls)) = 4096"
proof -
  let ?s = "run (NewMemoryAllocator device, st) calls"
  have "tracked (fst (NewMemoryAllocator device, st)) (snd (NewMemoryAllocator device, st))"
    by (simp add: New_tracked)
  then have t: "tracked (fst ?s) (snd ?s)" by (rule run_tracked)
  then have m: "ma_maxAllocations (fst ?s) = 4096" and l: "length (ma_allocations (fst ?s)) \<le> 4096"
    by (simp_all add: tracked_def)
  from assms m have "4096 \<le> length (ma_allocations (fst ?s))" by simp
  with limit_check [OF l] m have "(of_nat (length (ma_allocations (fst ?s))) :: 32 word) \<ge> ma_maxAllocations (fst ?s)"
    by simp
  then show ?thesis using m by (simp add: MemoryAllocator_Allocate_def)
qed

theorem allocator_cap_enforced_witness:
  "unat (ma_maxAllocations (fst (run (NewMemoryAllocator exampleDevice, exampleStore)
            (replicate 4096 (Allocate directRequest gpuOnly))))) \<le>
     length (ma_allocations (fst (run (NewMemoryAllocator exampleDevice, exampleStore)
            (replicate 4096 (Allocate directRequest gpuOnly))))) \<and>
   MemoryAllocator_Allocate
     (fst (run (NewMemoryAllocator exampleDevice, exampleStore)
            (replicate 4096 (Allocate directRequest gpuOnly))))
     (snd (run (NewMemoryAllocator exampleDevice, exampleStore)
            (replicate 4096 (Allocate directRequest gpuOnly))))
     smallRequest (gpuOnly\<lparr>ci_Pool := Some 0\<rparr>) =
   (Inl TooManyAllocations,
    fst (run (NewMemoryAllocator exampleDevice, exampleStore)
            (replicate 4096 (Allocate directRequest gpuOnly))),
    snd (run (NewMemoryAllocator exampleDevice, exampleStore)
            (replicate 4096 (Allocate directRequest gpuOnly))))"
proof -
  let ?s = "run (NewMemoryAllocator exampleDevice, exampleStore)
              (replicate 4096 (Allocate directRequest gpuOnly))"
  have "length (ma_allocations (fst ?s)) =
          length (ma_allocations (NewMemoryAllocator exampleDevice)) + 4096"
    by (rule run_direct) (simp_all add: New_tracked, simp_all add: NewMemoryAllocator_def)
  then have l: "length (ma_allocations (fst ?s)) = 4096" by (simp add: NewMemoryAllocator_def)
  have "tracked (fst (NewMemoryAllocator exampleDevice, exampleStore))
                (snd (NewMemoryAllocator exampleDevice, exampleStore))"
    by (simp add: New_tracked)
  then have "tracked (fst ?s) (snd ?s)" by (rule run_tracked)
  then have m: "ma_maxAllocations (fst ?s) = 4096" by (simp add: tracked_def)
  have h: "unat (ma_maxAllocations (fst ?s)) \<le> length (ma_allocations (fst ?s))"
    using l m by simp
  from allocator_cap_enforced [OF h] h show ?thesis by blast
qed

subsection \<open>Free on a nil or unknown allocation\<close>

text \<open>
  Claim C10, as amended.  When the allocation is \<^verbatim>\<open>nil\<close> or its address is not a key
  of the table, \<^verbatim>\<open>Free\<close> returns the matching error and the allocator, so its table
  and its total, is unchanged.
\<close>

theorem allocator_Free_rejected_unchanged:
  assumes "case allocation of None \<Rightarrow> True | Some a \<Rightarrow> map_of (ma_allocations ma) a = None"
  shows "fst (MemoryAllocator_Free ma st allocation) =
           Some (case allocation of None \<Rightarrow> NilAllocation | Some a \<Rightarrow> AllocationNotFoundInAllocator) \<and>
         fst (snd (MemoryAllocator_Free ma st allocation)) = ma"
  using assms
  by (cases allocation) (simp_all add: MemoryAllocator_Free_def freeAllocationUnsafe_def Let_def)

theorem allocator_Free_rejected_unchanged_witness:
  "map_of (ma_allocations (fst afterDirectAndFree)) 0 = None \<and>
   fst (MemoryAllocator_Free (fst afterDirectAndFree) (snd afterDirectAndFree) (Some 0)) =
     Some AllocationNotFoundInAllocator \<and>
   fst (snd (MemoryAllocator_Free (fst afterDirectAndFree) (snd afterDirectAndFree) (Some 0))) =
     fst afterDirectAndFree"
proof -
  have h: "map_of (ma_allocations (fst afterDirectAndFree)) 0 = None"
    unfolding afterDirectAndFree_def by code_simp
  from allocator_Free_rejected_unchanged
    [where allocation = "Some 0" and ma = "fst afterDirectAndFree" and st = "snd afterDirectAndFree"] h
  show ?thesis by simp
qed


text \<open>
  Claim C10 as stated, for every error that \<^verbatim>\<open>Free\<close> returns, fails for the error of
  the owning pool: it is returned after the entry was deleted and the total reduced.
  Two small allocations share a new pool; freeing the second releases the used block at
  offset 0; freeing the first then finds no used block at offset 0, and \<^verbatim>\<open>Free\<close>
  returns the pool's error with the table emptied and the total reduced from 65536 to 0.
\<close>

theorem allocator_Free_pool_error_after_delete:
  "fst (MemoryAllocator_Free (fst afterThreeCalls) (snd afterThreeCalls) (Some 0)) =
     Some AllocationNotFoundInPool \<and>
   ma_allocations (fst afterThreeCalls) = [(0, 0)] \<and>
   ma_allocations (fst (snd (MemoryAllocator_Free (fst afterThreeCalls) (snd afterThreeCalls) (Some 0)))) = [] \<and>
   ma_totalAllocated (fst afterThreeCalls) = 65536 \<and>
   ma_totalAllocated (fst (snd (MemoryAllocator_Free (fst afterThreeCalls) (snd afterThreeCalls) (Some 0)))) = 0"
  by code_simp

end
